theory Spec2Isabelle
  imports Main "HOL-Library.AList"
begin

section \<open>Errors\<close>

text \<open>
  Every \<^verbatim>\<open>raise\<close> of the sources is a value: the constructor is the Python exception
  class, its argument names the message of the raise site.
\<close>

datatype message =
    FlagsExclusive          \<comment> \<open>allow_non_canonical_axes and strict_canonical_order both true\<close>
  | AxesNotUnique           \<comment> \<open>All axes must be unique\<close>
  | UnknownAxes             \<comment> \<open>Unknown axes (others) while non canonical axes are not allowed\<close>
  | InvalidAxisName         \<comment> \<open>Invalid axis name\<close>
  | InvalidAxesOrder        \<comment> \<open>Invalid axes order\<close>
  | DuplicateAxisName       \<comment> \<open>Duplicate axis name, two or more were found\<close>
  | AxesNotQueried          \<comment> \<open>Some axes where not queried\<close>
  | ModeNotSupported        \<comment> \<open>Mode is not supported\<close>
  | CacheParallelExclusive  \<comment> \<open>The cache and parallel_safe options are mutually exclusive\<close>
  | StoreNotPath            \<comment> \<open>The store needs to be a path to use the lock mechanism\<close>
  | NotParallelSafe         \<comment> \<open>The handler is not parallel safe\<close>
  | GroupReadOnly           \<comment> \<open>The group is read only. Cannot write metadata\<close>
  | GroupReadOnlyWriteMode  \<comment> \<open>The group is read only. Cannot open in write mode\<close>
  | CreateGroupReadOnly     \<comment> \<open>Cannot create a group in read only mode\<close>
  | ImageDoesNotExist       \<comment> \<open>Image does not exist in well\<close>
  | WellNotFound            \<comment> \<open>no well at this row and column\<close>
  | ImageNotFound           \<comment> \<open>no image with this path in the well\<close>
  | NoValidMetadata         \<comment> \<open>the attributes of the group are no metadata document\<close>
  | HandlerExists           \<comment> \<open>Image handler for this version already exists\<close>
  | Other

datatype error =
    NgioValidationError message
  | NgioValueError message
  | NgioFileNotFoundError message
  | NgioFileExistsError message
  | ValueError message
  | IndexError
  | KeyError
  | AttributeError
  | NotImplementedError
  | ReadOnlyError
  | Timeout

section \<open>Axis types and units\<close>

datatype AxisType = channel | time | space

datatype SpaceUnits =
  nanometer | nm_unit | micrometer | um_unit | millimeter | mm_unit | centimeter | cm_unit

datatype TimeUnits = seconds | s_unit

datatype Units = Space SpaceUnits | Time TimeUnits

definition SpaceUnits_default :: SpaceUnits where
  "SpaceUnits_default = um_unit"

definition TimeUnits_default :: TimeUnits where
  "TimeUnits_default = s_unit"

fun is_TimeUnits :: "Units option \<Rightarrow> bool" where
  "is_TimeUnits (Some (Time _)) = True"
| "is_TimeUnits _ = False"

fun is_SpaceUnits :: "Units option \<Rightarrow> bool" where
  "is_SpaceUnits (Some (Space _)) = True"
| "is_SpaceUnits _ = False"

record Axis =
  on_disk_name :: string
  unit :: "Units option"
  axis_type :: "AxisType option"

text \<open>\<^verbatim>\<open>Axis.implicit_type_cast\<close>; the warnings are log output only.\<close>

definition implicit_type_cast :: "Axis \<Rightarrow> AxisType \<Rightarrow> Axis" where
  "implicit_type_cast self cast_type =
     (if cast_type = time \<and> \<not> is_TimeUnits (unit self) then
        \<lparr>on_disk_name = on_disk_name self, unit = Some (Time TimeUnits_default),
         axis_type = Some time\<rparr>
      else if cast_type = space \<and> \<not> is_SpaceUnits (unit self) then
        \<lparr>on_disk_name = on_disk_name self, unit = Some (Space SpaceUnits_default),
         axis_type = Some space\<rparr>
      else if cast_type = channel \<and> unit self \<noteq> None then
        \<lparr>on_disk_name = on_disk_name self, unit = None, axis_type = Some channel\<rparr>
      else
        \<lparr>on_disk_name = on_disk_name self, unit = unit self, axis_type = Some cast_type\<rparr>)"

text \<open>\<^verbatim>\<open>Axis.canonical_axis_cast\<close>: a \<^verbatim>\<open>match\<close> on the canonical name.\<close>

definition canonical_axis_cast :: "Axis \<Rightarrow> string \<Rightarrow> Axis" where
  "canonical_axis_cast self canonical_name =
     (if canonical_name = ''t'' then
        (if axis_type self \<noteq> Some time \<or> \<not> is_TimeUnits (unit self)
         then implicit_type_cast self time else self)
      else if canonical_name = ''c'' then
        (if axis_type self \<noteq> Some channel \<or> unit self \<noteq> None
         then implicit_type_cast self channel else self)
      else if canonical_name = ''z'' \<or> canonical_name = ''y'' \<or> canonical_name = ''x'' then
        (if axis_type self \<noteq> Some space \<or> \<not> is_SpaceUnits (unit self)
         then implicit_type_cast self space else self)
      else self)"

section \<open>Axes setup and validation\<close>

definition canonical_axes_order :: "string list" where
  "canonical_axes_order = [''t'', ''c'', ''z'', ''y'', ''x'']"

record AxesSetup =
  setup_x :: string
  setup_y :: string
  setup_z :: string
  setup_c :: string
  setup_t :: string
  others :: "string list"

text \<open>\<^verbatim>\<open>AxesSetup()\<close>: the defaults of the model.\<close>

definition AxesSetup_default :: AxesSetup where
  "AxesSetup_default =
     \<lparr>setup_x = ''x'', setup_y = ''y'', setup_z = ''z'', setup_c = ''c'', setup_t = ''t'',
      others = []\<rparr>"

text \<open>\<^verbatim>\<open>axes_setup.model_dump(exclude={"others"})\<close>: a dict in field order.\<close>

definition model_dump :: "AxesSetup \<Rightarrow> (string \<times> string) list" where
  "model_dump axes_setup =
     [(''x'', setup_x axes_setup), (''y'', setup_y axes_setup), (''z'', setup_z axes_setup),
      (''c'', setup_c axes_setup), (''t'', setup_t axes_setup)]"

text \<open>\<^verbatim>\<open>getattr(axes_setup, name)\<close> for the name of a canonical field.\<close>

definition getattr :: "AxesSetup \<Rightarrow> string \<Rightarrow> error + string" where
  "getattr axes_setup name =
     (case map_of (model_dump axes_setup) name of
        None \<Rightarrow> Inl AttributeError
      | Some v \<Rightarrow> Inr v)"

definition check_unique_names :: "Axis list \<Rightarrow> error + unit" where
  "check_unique_names axes =
     (let names = map on_disk_name axes in
      if length (remdups names) \<noteq> length names
      then Inl (NgioValidationError AxesNotUnique) else Inr ())"

definition check_non_canonical_axes :: "AxesSetup \<Rightarrow> bool \<Rightarrow> error + unit" where
  "check_non_canonical_axes axes_setup allow_non_canonical_axes =
     (if \<not> allow_non_canonical_axes \<and> length (others axes_setup) > 0
      then Inl (NgioValidationError UnknownAxes) else Inr ())"

fun check_axes_validity_loop :: "string list \<Rightarrow> Axis list \<Rightarrow> error + unit" where
  "check_axes_validity_loop all_known_axes [] = Inr ()"
| "check_axes_validity_loop all_known_axes (ax # axes) =
     (if on_disk_name ax \<notin> set all_known_axes
      then Inl (NgioValidationError InvalidAxisName)
      else check_axes_validity_loop all_known_axes axes)"

definition check_axes_validity :: "Axis list \<Rightarrow> AxesSetup \<Rightarrow> error + unit" where
  "check_axes_validity axes axes_setup =
     check_axes_validity_loop (map snd (model_dump axes_setup) @ others axes_setup) axes"

fun canonical_order_loop ::
  "AxesSetup \<Rightarrow> string list \<Rightarrow> string list \<Rightarrow> string list \<Rightarrow> error + string list" where
  "canonical_order_loop axes_setup on_disk_names [] acc = Inr acc"
| "canonical_order_loop axes_setup on_disk_names (name # names) acc =
     (case getattr axes_setup name of
        Inl e \<Rightarrow> Inl e
      | Inr mapped_name \<Rightarrow>
          canonical_order_loop axes_setup on_disk_names names
            (if mapped_name \<in> set on_disk_names then acc @ [mapped_name] else acc))"

definition check_canonical_order :: "Axis list \<Rightarrow> AxesSetup \<Rightarrow> bool \<Rightarrow> error + unit" where
  "check_canonical_order axes axes_setup strict_canonical_order =
     (if \<not> strict_canonical_order then Inr ()
      else
        let on_disk_names = map on_disk_name axes in
        case canonical_order_loop axes_setup on_disk_names canonical_axes_order [] of
          Inl e \<Rightarrow> Inl e
        | Inr canonical_order \<Rightarrow>
            if on_disk_names \<noteq> canonical_order
            then Inl (NgioValidationError InvalidAxesOrder) else Inr ())"

definition validate_axes :: "Axis list \<Rightarrow> AxesSetup \<Rightarrow> bool \<Rightarrow> bool \<Rightarrow> error + unit" where
  "validate_axes axes axes_setup allow_non_canonical_axes strict_canonical_order =
     (if allow_non_canonical_axes \<and> strict_canonical_order
      then Inl (NgioValidationError FlagsExclusive)
      else case check_unique_names axes of
        Inl e \<Rightarrow> Inl e
      | Inr _ \<Rightarrow>
       (case check_non_canonical_axes axes_setup allow_non_canonical_axes of
          Inl e \<Rightarrow> Inl e
        | Inr _ \<Rightarrow>
         (case check_axes_validity axes axes_setup of
            Inl e \<Rightarrow> Inl e
          | Inr _ \<Rightarrow> check_canonical_order axes axes_setup strict_canonical_order)))"

section \<open>The axes mapper\<close>

record AxesMapper =
  allow_non_canonical_axes :: bool
  strict_canonical_order :: bool
  canonical_order :: "string list"
  extended_canonical_order :: "string list"
  on_disk_axes :: "Axis list"
  axes_setup :: AxesSetup
  name_mapping :: "(string \<times> string option) list"
  index_mapping :: "(string \<times> nat option) list"

text \<open>
  The two mappings are Python dicts: association lists in insertion order, where
  \<^const>\<open>AList.update\<close> is the assignment \<^verbatim>\<open>d[k] = v\<close> (an existing key keeps its place).
\<close>

definition on_disk_axes_names :: "AxesMapper \<Rightarrow> string list" where
  "on_disk_axes_names self = map on_disk_name (on_disk_axes self)"

text \<open>\<^verbatim>\<open>list.index\<close>: the first position of a value, \<^verbatim>\<open>ValueError\<close> (here None) without one.\<close>

fun list_index :: "'a list \<Rightarrow> 'a \<Rightarrow> nat option" where
  "list_index [] v = None"
| "list_index (x # xs) v =
     (if x = v then Some 0 else map_option Suc (list_index xs v))"

definition compute_name_mapping ::
  "AxesSetup \<Rightarrow> string list \<Rightarrow> (string \<times> string option) list" where
  "compute_name_mapping setup on_disk_names =
     (let first_loop =
            fold (\<lambda>(canonical_key, on_disk_value) m.
                    AList.update canonical_key
                      (if on_disk_value \<in> set on_disk_names then Some on_disk_value else None) m)
                 (model_dump setup) []
      in fold (\<lambda>on_disk_name m.
                 if on_disk_name \<notin> set (map fst m)
                 then AList.update on_disk_name (Some on_disk_name) m else m)
              on_disk_names first_loop)"

fun compute_index_mapping_loop ::
  "string list \<Rightarrow> (string \<times> string option) list \<Rightarrow> (string \<times> nat option) list
     \<Rightarrow> error + (string \<times> nat option) list" where
  "compute_index_mapping_loop on_disk_names [] im = Inr im"
| "compute_index_mapping_loop on_disk_names ((canonical_key, on_disk_value) # items) im =
     (case on_disk_value of
        None \<Rightarrow>
          compute_index_mapping_loop on_disk_names items (AList.update canonical_key None im)
      | Some v \<Rightarrow>
         (case list_index on_disk_names v of
            None \<Rightarrow> Inl (ValueError Other)
          | Some i \<Rightarrow>
              compute_index_mapping_loop on_disk_names items
                (AList.update canonical_key (Some i) im)))"

definition compute_index_mapping ::
  "string list \<Rightarrow> (string \<times> string option) list \<Rightarrow> error + (string \<times> nat option) list" where
  "compute_index_mapping on_disk_names nm = compute_index_mapping_loop on_disk_names nm []"

definition get_index :: "AxesMapper \<Rightarrow> string \<Rightarrow> error + nat option" where
  "get_index self name =
     (if name \<notin> set (map fst (index_mapping self))
      then Inl (NgioValueError InvalidAxisName)
      else case map_of (index_mapping self) name of
        None \<Rightarrow> Inl KeyError
      | Some i \<Rightarrow> Inr i)"

definition get_axis :: "AxesMapper \<Rightarrow> string \<Rightarrow> error + Axis option" where
  "get_axis self name =
     (case get_index self name of
        Inl e \<Rightarrow> Inl e
      | Inr None \<Rightarrow> Inr None
      | Inr (Some i) \<Rightarrow>
          if i < length (on_disk_axes self) then Inr (Some (on_disk_axes self ! i))
          else Inl IndexError)"

text \<open>
  \<^verbatim>\<open>validate_axex_type\<close>: for every axis the inner \<^verbatim>\<open>for ... else\<close> loop takes the first
  canonical name whose axis equals it (\<^verbatim>\<open>break\<close>), and keeps the axis when there is none.
\<close>

fun cast_first_match :: "AxesMapper \<Rightarrow> Axis \<Rightarrow> string list \<Rightarrow> error + Axis" where
  "cast_first_match self axes [] = Inr axes"
| "cast_first_match self axes (name # names) =
     (case get_axis self name of
        Inl e \<Rightarrow> Inl e
      | Inr found \<Rightarrow>
          if Some axes = found then Inr (canonical_axis_cast axes name)
          else cast_first_match self axes names)"

fun validate_axex_type_loop :: "AxesMapper \<Rightarrow> Axis list \<Rightarrow> Axis list \<Rightarrow> error + Axis list" where
  "validate_axex_type_loop self [] new_axes = Inr new_axes"
| "validate_axex_type_loop self (axes # rest) new_axes =
     (case cast_first_match self axes (canonical_order self) of
        Inl e \<Rightarrow> Inl e
      | Inr a \<Rightarrow> validate_axex_type_loop self rest (new_axes @ [a]))"

definition validate_axex_type :: "AxesMapper \<Rightarrow> error + AxesMapper" where
  "validate_axex_type self =
     (case validate_axex_type_loop self (on_disk_axes self) [] of
        Inl e \<Rightarrow> Inl e
      | Inr new_axes \<Rightarrow> Inr (self\<lparr>on_disk_axes := new_axes\<rparr>))"

text \<open>\<^verbatim>\<open>AxesMapper.__init__\<close>; \<open>None\<close> for the setup is \<^verbatim>\<open>AxesSetup()\<close>.\<close>

definition AxesMapper_init ::
  "Axis list \<Rightarrow> AxesSetup option \<Rightarrow> bool \<Rightarrow> bool \<Rightarrow> error + AxesMapper" where
  "AxesMapper_init on_disk_axes_arg axes_setup_arg allow strict =
     (let setup = (case axes_setup_arg of None \<Rightarrow> AxesSetup_default | Some a \<Rightarrow> a) in
      case validate_axes on_disk_axes_arg setup allow strict of
        Inl e \<Rightarrow> Inl e
      | Inr _ \<Rightarrow>
          let names = map on_disk_name on_disk_axes_arg;
              nm = compute_name_mapping setup names
          in case compute_index_mapping names nm of
               Inl e \<Rightarrow> Inl e
             | Inr im \<Rightarrow>
                 validate_axex_type
                   \<lparr>allow_non_canonical_axes = allow,
                    strict_canonical_order = strict,
                    canonical_order = canonical_axes_order,
                    extended_canonical_order = others setup @ canonical_axes_order,
                    on_disk_axes = on_disk_axes_arg,
                    axes_setup = setup,
                    name_mapping = nm,
                    index_mapping = im\<rparr>)"

text \<open>The object as \<^verbatim>\<open>__init__\<close> has built it before \<^verbatim>\<open>validate_axex_type\<close> runs.\<close>

definition built :: "Axis list \<Rightarrow> AxesSetup \<Rightarrow> bool \<Rightarrow> bool \<Rightarrow> (string \<times> nat option) list \<Rightarrow> AxesMapper" where
  "built axes setup allow strict im =
     \<lparr>allow_non_canonical_axes = allow,
      strict_canonical_order = strict,
      canonical_order = canonical_axes_order,
      extended_canonical_order = others setup @ canonical_axes_order,
      on_disk_axes = axes,
      axes_setup = setup,
      name_mapping = compute_name_mapping setup (map on_disk_name axes),
      index_mapping = im\<rparr>"

definition setup_of :: "AxesSetup option \<Rightarrow> AxesSetup" where
  "setup_of a = (case a of None \<Rightarrow> AxesSetup_default | Some s \<Rightarrow> s)"


subsection \<open>A concrete mapper\<close>

definition example_axes :: "Axis list" where
  "example_axes =
     [\<lparr>on_disk_name = ''y'', unit = None, axis_type = None\<rparr>,
      \<lparr>on_disk_name = ''x'', unit = Some (Space um_unit), axis_type = Some space\<rparr>,
      \<lparr>on_disk_name = ''c'', unit = Some (Time seconds), axis_type = None\<rparr>]"

definition example_mapper :: AxesMapper where
  "example_mapper =
     \<lparr>allow_non_canonical_axes = False, strict_canonical_order = False,
      canonical_order = [''t'', ''c'', ''z'', ''y'', ''x''],
      extended_canonical_order = [''t'', ''c'', ''z'', ''y'', ''x''],
      on_disk_axes =
        [\<lparr>on_disk_name = ''y'', unit = Some (Space um_unit), axis_type = Some space\<rparr>,
         \<lparr>on_disk_name = ''x'', unit = Some (Space um_unit), axis_type = Some space\<rparr>,
         \<lparr>on_disk_name = ''c'', unit = None, axis_type = Some channel\<rparr>],
      axes_setup = AxesSetup_default,
      name_mapping =
        [(''x'', Some ''x''), (''y'', Some ''y''), (''z'', None), (''c'', Some ''c''), (''t'', None)],
      index_mapping =
        [(''x'', Some 1), (''y'', Some 0), (''z'', None), (''c'', Some 2), (''t'', None)]\<rparr>"


definition duplicate_axes :: "Axis list" where
  "duplicate_axes =
     [\<lparr>on_disk_name = ''x'', unit = None, axis_type = None\<rparr>,
      \<lparr>on_disk_name = ''x'', unit = None, axis_type = Some space\<rparr>]"


text \<open>
  The family of type and unit the canonical slots expect: a time unit and type for \<^verbatim>\<open>t\<close>, the
  channel type and no unit for \<^verbatim>\<open>c\<close>, a space unit and type for \<^verbatim>\<open>z\<close>, \<^verbatim>\<open>y\<close>, \<^verbatim>\<open>x\<close> (the
  conditions under which \<^verbatim>\<open>canonical_axis_cast\<close> returns the axis as it is).
\<close>

definition expected_family :: "string \<Rightarrow> Axis \<Rightarrow> bool" where
  "expected_family canonical_name a =
     (if canonical_name = ''t'' then axis_type a = Some time \<and> is_TimeUnits (unit a)
      else if canonical_name = ''c'' then axis_type a = Some channel \<and> unit a = None
      else axis_type a = Some space \<and> is_SpaceUnits (unit a))"

text \<open>A setup that gives one on-disk name to two canonical keys.\<close>

definition two_slot_axes :: "Axis list" where
  "two_slot_axes = [\<lparr>on_disk_name = ''a'', unit = None, axis_type = None\<rparr>]"

definition two_slot_setup :: AxesSetup where
  "two_slot_setup =
     \<lparr>setup_x = ''a'', setup_y = ''y'', setup_z = ''z'', setup_c = ''c'', setup_t = ''a'',
      others = []\<rparr>"

definition two_slot_mapper :: AxesMapper where
  "two_slot_mapper =
     \<lparr>allow_non_canonical_axes = False, strict_canonical_order = False,
      canonical_order = [''t'', ''c'', ''z'', ''y'', ''x''],
      extended_canonical_order = [''t'', ''c'', ''z'', ''y'', ''x''],
      on_disk_axes =
        [\<lparr>on_disk_name = ''a'', unit = Some (Time s_unit), axis_type = Some time\<rparr>],
      axes_setup = two_slot_setup,
      name_mapping =
        [(''x'', Some ''a''), (''y'', None), (''z'', None), (''c'', None), (''t'', Some ''a''),
         (''a'', Some ''a'')],
      index_mapping =
        [(''x'', Some 0), (''y'', None), (''z'', None), (''c'', None), (''t'', Some 0),
         (''a'', Some 0)]\<rparr>"


section \<open>Reordering plans\<close>

datatype AxesTransformation =
    AxesTranspose "nat list"
  | AxesExpand "nat list"
  | AxesSqueeze "nat list"

text \<open>\<^verbatim>\<open>self._name_mapping.get(name)\<close>: \<open>None\<close> for a missing key and for the value \<^verbatim>\<open>None\<close>.\<close>

definition dict_get :: "('k \<times> 'v option) list \<Rightarrow> 'k \<Rightarrow> 'v option" where
  "dict_get d k = (case map_of d k of None \<Rightarrow> None | Some v \<Rightarrow> v)"

text \<open>
  The first loop of \<^verbatim>\<open>_change_order\<close>. The Python set \<^verbatim>\<open>unique_names\<close> is a list that gets a
  name only when it does not hold it, so its length is the size of the set.
\<close>

fun change_order_unique :: "AxesMapper \<Rightarrow> string list \<Rightarrow> string list \<Rightarrow> error + string list" where
  "change_order_unique self [] unique_names = Inr unique_names"
| "change_order_unique self (name # names) unique_names =
     (if name \<notin> set (map fst (index_mapping self))
      then Inl (NgioValueError InvalidAxisName)
      else case dict_get (name_mapping self) name of
        None \<Rightarrow> change_order_unique self names unique_names
      | Some unique_name \<Rightarrow>
          if unique_name \<in> set unique_names
          then Inl (NgioValueError DuplicateAxisName)
          else change_order_unique self names (unique_names @ [unique_name]))"

text \<open>The second loop, over \<^verbatim>\<open>enumerate(names)\<close>.\<close>

fun change_order_split ::
  "AxesMapper \<Rightarrow> nat \<Rightarrow> string list \<Rightarrow> nat list \<Rightarrow> nat list \<Rightarrow> error + nat list \<times> nat list" where
  "change_order_split self i [] indices inserts = Inr (indices, inserts)"
| "change_order_split self i (name # names) indices inserts =
     (case map_of (index_mapping self) name of
        None \<Rightarrow> Inl KeyError
      | Some None \<Rightarrow> change_order_split self (Suc i) names indices (inserts @ [i])
      | Some (Some index) \<Rightarrow> change_order_split self (Suc i) names (indices @ [index]) inserts)"

definition change_order :: "AxesMapper \<Rightarrow> string list \<Rightarrow> error + nat list \<times> nat list" where
  "change_order self names =
     (case change_order_unique self names [] of
        Inl e \<Rightarrow> Inl e
      | Inr unique_names \<Rightarrow>
          if length (on_disk_axes_names self) > length unique_names
          then Inl (NgioValueError AxesNotQueried)
          else change_order_split self 0 names [] [])"

text \<open>\<^verbatim>\<open>np.argsort\<close> of a list of indices: the positions in the order of their values.\<close>

definition argsort :: "nat list \<Rightarrow> nat list" where
  "argsort xs = map snd (sort_key fst (zip xs [0..<length xs]))"

definition to_order :: "AxesMapper \<Rightarrow> string list \<Rightarrow> error + AxesTransformation list" where
  "to_order self names =
     (case change_order self names of
        Inl e \<Rightarrow> Inl e
      | Inr (indices, inserts) \<Rightarrow> Inr [AxesTranspose indices, AxesExpand inserts])"

definition from_order :: "AxesMapper \<Rightarrow> string list \<Rightarrow> error + AxesTransformation list" where
  "from_order self names =
     (case change_order self names of
        Inl e \<Rightarrow> Inl e
      | Inr (indices, inserts) \<Rightarrow>
          Inr [AxesSqueeze inserts, AxesTranspose (argsort indices)])"

definition to_canonical :: "AxesMapper \<Rightarrow> error + AxesTransformation list" where
  "to_canonical self = to_order self (extended_canonical_order self)"

definition from_canonical :: "AxesMapper \<Rightarrow> error + AxesTransformation list" where
  "from_canonical self = from_order self (extended_canonical_order self)"

section \<open>Applying a plan to a list\<close>

text \<open>\<^verbatim>\<open>list.insert(i, v)\<close> for \<open>i \<ge> 0\<close>: an index beyond the end appends.\<close>

definition list_insert :: "'a list \<Rightarrow> nat \<Rightarrow> 'a \<Rightarrow> 'a list" where
  "list_insert xs i v = take i xs @ v # drop i xs"

text \<open>\<^verbatim>\<open>list.pop(i)\<close>: a negative index counts from the end, an index out of range raises.\<close>

definition list_pop :: "'a list \<Rightarrow> int \<Rightarrow> error + 'a list" where
  "list_pop xs i =
     (let j = (if i < 0 then i + int (length xs) else i) in
      if j < 0 \<or> int (length xs) \<le> j then Inl IndexError
      else Inr (take (nat j) xs @ drop (Suc (nat j)) xs))"

text \<open>\<^verbatim>\<open>for offset, ax in enumerate(operation.axes): input_list.pop(ax - offset)\<close>\<close>

fun squeeze_list :: "'a list \<Rightarrow> nat \<Rightarrow> nat list \<Rightarrow> error + 'a list" where
  "squeeze_list xs offset [] = Inr xs"
| "squeeze_list xs offset (ax # axes) =
     (case list_pop xs (int ax - int offset) of
        Inl e \<Rightarrow> Inl e
      | Inr ys \<Rightarrow> squeeze_list ys (Suc offset) axes)"

text \<open>\<^verbatim>\<open>for ax in operation.axes: input_list.insert(ax, default)\<close>\<close>

definition expand_list :: "'a list \<Rightarrow> 'a \<Rightarrow> nat list \<Rightarrow> 'a list" where
  "expand_list xs dflt axes = fold (\<lambda>ax l. list_insert l ax dflt) axes xs"

text \<open>\<^verbatim>\<open>[input_list[i] for i in operation.axes]\<close>\<close>

definition transpose_list :: "'a list \<Rightarrow> nat list \<Rightarrow> error + 'a list" where
  "transpose_list xs axes =
     (if \<exists>i\<in>set axes. length xs \<le> i then Inl IndexError
      else Inr (map (\<lambda>i. xs ! i) axes))"

fun transform_list :: "'a list \<Rightarrow> 'a \<Rightarrow> AxesTransformation list \<Rightarrow> error + 'a list" where
  "transform_list input_list dflt [] = Inr input_list"
| "transform_list input_list dflt (AxesTranspose axes # operations) =
     (case transpose_list input_list axes of
        Inl e \<Rightarrow> Inl e
      | Inr l \<Rightarrow> transform_list l dflt operations)"
| "transform_list input_list dflt (AxesExpand axes # operations) =
     transform_list (expand_list input_list dflt axes) dflt operations"
| "transform_list input_list dflt (AxesSqueeze axes # operations) =
     (case squeeze_list input_list 0 axes of
        Inl e \<Rightarrow> Inl e
      | Inr l \<Rightarrow> transform_list l dflt operations)"

section \<open>Applying a plan to an array\<close>

text \<open>
  An N-dimensional array is its shape and its elements by index tuple; an index tuple out of
  the bounds of the shape has no element. The three operations are those of NumPy:
  \<^verbatim>\<open>np.transpose\<close> wants a permutation of the dimensions, \<^verbatim>\<open>np.expand_dims\<close> wants distinct
  positions within the new number of dimensions, \<^verbatim>\<open>np.squeeze\<close> wants distinct dimensions of
  length one; each raises otherwise.
\<close>

record 'a ndarray =
  shape :: "nat list"
  item :: "nat list \<Rightarrow> 'a option"

definition in_bounds :: "nat list \<Rightarrow> nat list \<Rightarrow> bool" where
  "in_bounds idx shp = list_all2 (<) idx shp"

definition wf_ndarray :: "'a ndarray \<Rightarrow> bool" where
  "wf_ndarray a = (\<forall>idx. \<not> in_bounds idx (shape a) \<longrightarrow> item a idx = None)"

text \<open>\<^verbatim>\<open>[x for i, x in enumerate(xs) if i not in ps]\<close>, counting from \<open>i\<close>.\<close>

fun drop_positions :: "nat list \<Rightarrow> nat \<Rightarrow> 'a list \<Rightarrow> 'a list" where
  "drop_positions ps i [] = []"
| "drop_positions ps i (x # xs) =
     (if i \<in> set ps then drop_positions ps (Suc i) xs else x # drop_positions ps (Suc i) xs)"

text \<open>
  \<^verbatim>\<open>[v if i in ps else next(it) for i in range(n)]\<close>, counting from \<open>i\<close> for \<open>n\<close> positions, with
  \<open>xs\<close> what the iterator still holds.
\<close>

fun fill_positions :: "nat list \<Rightarrow> 'a \<Rightarrow> nat \<Rightarrow> nat \<Rightarrow> 'a list \<Rightarrow> 'a list" where
  "fill_positions ps v i 0 xs = []"
| "fill_positions ps v i (Suc n) xs =
     (if i \<in> set ps then v # fill_positions ps v (Suc i) n xs
      else case xs of [] \<Rightarrow> [] | x # r \<Rightarrow> x # fill_positions ps v (Suc i) n r)"

definition np_transpose :: "'a ndarray \<Rightarrow> nat list \<Rightarrow> error + 'a ndarray" where
  "np_transpose a axes =
     (let ndim = length (shape a) in
      if length axes \<noteq> ndim \<or> \<not> distinct axes \<or> (\<exists>ax\<in>set axes. ndim \<le> ax)
      then Inl (ValueError Other)
      else
        let new_shape = map (\<lambda>ax. shape a ! ax) axes in
        Inr \<lparr>shape = new_shape,
             item = (\<lambda>idx. if in_bounds idx new_shape
                            then item a (map (\<lambda>d. case list_index axes d of
                                                     None \<Rightarrow> 0 | Some p \<Rightarrow> idx ! p) [0..<ndim])
                            else None)\<rparr>)"

definition np_expand_dims :: "'a ndarray \<Rightarrow> nat list \<Rightarrow> error + 'a ndarray" where
  "np_expand_dims a axis =
     (let out_ndim = length axis + length (shape a) in
      if \<not> distinct axis \<or> (\<exists>ax\<in>set axis. out_ndim \<le> ax)
      then Inl (ValueError Other)
      else
        let new_shape = fill_positions axis 1 0 out_ndim (shape a) in
        Inr \<lparr>shape = new_shape,
             item = (\<lambda>idx. if in_bounds idx new_shape
                            then item a (drop_positions axis 0 idx) else None)\<rparr>)"

definition np_squeeze :: "'a ndarray \<Rightarrow> nat list \<Rightarrow> error + 'a ndarray" where
  "np_squeeze a axis =
     (let ndim = length (shape a) in
      if \<not> distinct axis \<or> (\<exists>ax\<in>set axis. ndim \<le> ax) \<or> (\<exists>ax\<in>set axis. shape a ! ax \<noteq> 1)
      then Inl (ValueError Other)
      else
        let new_shape = drop_positions axis 0 (shape a) in
        Inr \<lparr>shape = new_shape,
             item = (\<lambda>idx. if in_bounds idx new_shape
                            then item a (fill_positions axis 0 0 ndim idx) else None)\<rparr>)"

fun transform_array :: "'a ndarray \<Rightarrow> AxesTransformation list \<Rightarrow> error + 'a ndarray" where
  "transform_array array [] = Inr array"
| "transform_array array (AxesTranspose axes # operations) =
     (case np_transpose array axes of
        Inl e \<Rightarrow> Inl e
      | Inr a \<Rightarrow> transform_array a operations)"
| "transform_array array (AxesExpand axes # operations) =
     (case np_expand_dims array axes of
        Inl e \<Rightarrow> Inl e
      | Inr a \<Rightarrow> transform_array a operations)"
| "transform_array array (AxesSqueeze axes # operations) =
     (case np_squeeze array axes of
        Inl e \<Rightarrow> Inl e
      | Inr a \<Rightarrow> transform_array a operations)"


subsection \<open>Inserted positions as a mask\<close>

text \<open>
  For the proofs, a list of target positions is read as a mask: \<open>True\<close> where a position is
  inserted, \<open>False\<close> where it takes the next element.
\<close>

fun mask_positions :: "nat \<Rightarrow> bool list \<Rightarrow> nat list" where
  "mask_positions i [] = []"
| "mask_positions i (b # bs) =
     (if b then i # mask_positions (Suc i) bs else mask_positions (Suc i) bs)"

fun interleave :: "bool list \<Rightarrow> 'a \<Rightarrow> 'a list \<Rightarrow> 'a list" where
  "interleave [] v xs = []"
| "interleave (True # bs) v xs = v # interleave bs v xs"
| "interleave (False # bs) v [] = []"
| "interleave (False # bs) v (x # xs) = x # interleave bs v xs"

definition agrees :: "nat list \<Rightarrow> nat \<Rightarrow> bool list \<Rightarrow> bool" where
  "agrees ps i bs = (\<forall>j. i \<le> j \<and> j < i + length bs \<longrightarrow> (j \<in> set ps) = bs ! (j - i))"

text \<open>A list of indices that is a permutation of \<open>0, \<dots>, n - 1\<close>.\<close>

definition is_perm :: "nat list \<Rightarrow> nat \<Rightarrow> bool" where
  "is_perm p n = (distinct p \<and> set p = {0..<n})"


subsection \<open>Concrete inputs for the round trip\<close>

definition example_plan :: "AxesTransformation list" where
  "example_plan = [AxesTranspose [2, 0, 1], AxesExpand [0, 2]]"

definition example_array :: "nat list ndarray" where
  "example_array =
     \<lparr>shape = [2, 3, 4],
      item = (\<lambda>idx. if in_bounds idx [2, 3, 4] then Some idx else None)\<rparr>"

text \<open>A setup that allows another axis, \<^verbatim>\<open>foo\<close>, for axes on disk that do not have it.\<close>

definition others_axes :: "Axis list" where
  "others_axes =
     [\<lparr>on_disk_name = ''y'', unit = None, axis_type = None\<rparr>,
      \<lparr>on_disk_name = ''x'', unit = None, axis_type = None\<rparr>]"

definition others_setup :: AxesSetup where
  "others_setup =
     \<lparr>setup_x = ''x'', setup_y = ''y'', setup_z = ''z'', setup_c = ''c'', setup_t = ''t'',
      others = [''foo'']\<rparr>"

definition others_mapper :: AxesMapper where
  "others_mapper =
     \<lparr>allow_non_canonical_axes = True, strict_canonical_order = False,
      canonical_order = [''t'', ''c'', ''z'', ''y'', ''x''],
      extended_canonical_order = [''foo'', ''t'', ''c'', ''z'', ''y'', ''x''],
      on_disk_axes =
        [\<lparr>on_disk_name = ''y'', unit = Some (Space um_unit), axis_type = Some space\<rparr>,
         \<lparr>on_disk_name = ''x'', unit = Some (Space um_unit), axis_type = Some space\<rparr>],
      axes_setup = others_setup,
      name_mapping =
        [(''x'', Some ''x''), (''y'', Some ''y''), (''z'', None), (''c'', None), (''t'', None)],
      index_mapping =
        [(''x'', Some 1), (''y'', Some 0), (''z'', None), (''c'', None), (''t'', None)]\<rparr>"

section \<open>The group handler\<close>

text \<open>
  The hierarchy of the store is a map from the path of a group to its attributes; a path
  without an entry has no group. The attributes of a group are empty, a plate document, a well
  document, or something else.
\<close>

record ImageInWellPath =
  image_path :: string
  image_acquisition :: "int option"

record NgioWellMeta =
  images :: "ImageInWellPath list"

record WellInPlate =
  well_row :: string
  well_column :: string

record NgioPlateMeta =
  wells :: "WellInPlate list"

datatype attributes =
    NoAttrs
  | PlateAttrs NgioPlateMeta
  | WellAttrs NgioWellMeta
  | OtherAttrs

type_synonym hierarchy = "string \<Rightarrow> attributes option"

text \<open>
  What \<^verbatim>\<open>open_group_wrapper\<close> returns as the store: a path (\<^verbatim>\<open>str | Path\<close>, also the path of a
  directory store), another supported store, or a store that \<^verbatim>\<open>_check_store\<close> rejects.
\<close>

datatype store_ref = PathStore string | OtherStore | UnsupportedStore

text \<open>
  A group knows the store it lives in: a directory store with its path, which is absolute,
  another store that \<^verbatim>\<open>_check_store\<close> accepts, or one that it rejects.
\<close>

datatype zarr_store = DirectoryStore string | FSStore | UnknownStore

record zarr_group =
  group_path :: string
  read_only :: bool
  group_store :: zarr_store

record ZarrGroupHandler =
  group :: zarr_group
  mode :: string
  store :: store_ref
  use_cache :: bool
  parallel_safe :: bool
  lock_path :: "string option"

text \<open>
  \<^verbatim>\<open>ZarrGroupHandler.__init__\<close>. The argument \<open>opened\<close> is what \<^verbatim>\<open>open_group_wrapper(store, mode)\<close>
  returns or raises; the lock is the file lock at \<^verbatim>\<open>lock_path\<close>, absent when the path is.
\<close>

definition ZarrGroupHandler_init ::
  "(error + zarr_group \<times> store_ref) \<Rightarrow> bool \<Rightarrow> string \<Rightarrow> bool \<Rightarrow> error + ZarrGroupHandler" where
  "ZarrGroupHandler_init opened cache mode_arg parallel_safe_arg =
     (if mode_arg \<notin> set [''r'', ''r+'', ''w'', ''w-'', ''a'']
      then Inl (NgioValueError ModeNotSupported)
      else if parallel_safe_arg \<and> cache
      then Inl (NgioValueError CacheParallelExclusive)
      else case opened of
        Inl e \<Rightarrow> Inl e
      | Inr (g, s) \<Rightarrow>
          if parallel_safe_arg then
            (case s of
               PathStore p \<Rightarrow>
                 Inr \<lparr>group = g, mode = mode_arg, store = s, use_cache = cache,
                      parallel_safe = parallel_safe_arg, lock_path = Some (p @ ''.lock'')\<rparr>
             | _ \<Rightarrow> Inl (NgioValueError StoreNotPath))
          else
            Inr \<lparr>group = g, mode = mode_arg, store = s, use_cache = cache,
                 parallel_safe = parallel_safe_arg, lock_path = None\<rparr>)"

text \<open>The property \<^verbatim>\<open>lock\<close>.\<close>

definition lock :: "ZarrGroupHandler \<Rightarrow> error + string" where
  "lock self =
     (case lock_path self of
        None \<Rightarrow> Inl (NgioValueError NotParallelSafe)
      | Some p \<Rightarrow> Inr p)"

text \<open>
  \<^verbatim>\<open>open_group_wrapper\<close> for a store that is a group already: \<^verbatim>\<open>_check_group\<close>, then the store
  of the group, which is the path of a directory store and the store itself otherwise, then
  \<^verbatim>\<open>_check_store\<close>.
\<close>

definition check_group :: "zarr_group \<Rightarrow> string \<Rightarrow> error + zarr_group" where
  "check_group g mode_arg =
     (if read_only g \<and> mode_arg \<in> set [''w'', ''w-'']
      then Inl (NgioValueError GroupReadOnlyWriteMode)
      else if mode_arg = ''r'' \<and> \<not> read_only g then Inr (g\<lparr>read_only := True\<rparr>)
      else Inr g)"

definition open_group_wrapper :: "zarr_group \<Rightarrow> string \<Rightarrow> error + zarr_group \<times> store_ref" where
  "open_group_wrapper g mode_arg =
     (case check_group g mode_arg of
        Inl e \<Rightarrow> Inl e
      | Inr g' \<Rightarrow>
         (case group_store g' of
            DirectoryStore p \<Rightarrow> Inr (g', PathStore p)
          | FSStore \<Rightarrow> Inr (g', OtherStore)
          | UnknownStore \<Rightarrow> Inl NotImplementedError))"

text \<open>
  \<^verbatim>\<open>load_attrs\<close> and \<^verbatim>\<open>write_attrs\<close>. The cache of a handler holds what the handler itself has
  read, every write and \<^verbatim>\<open>clean_cache\<close> empty it, and the plate code cleans it after each
  write; the model reads the hierarchy.
\<close>

definition load_attrs :: "ZarrGroupHandler \<Rightarrow> hierarchy \<Rightarrow> attributes" where
  "load_attrs self h =
     (case h (group_path (group self)) of None \<Rightarrow> NoAttrs | Some a \<Rightarrow> a)"

definition write_attrs :: "ZarrGroupHandler \<Rightarrow> attributes \<Rightarrow> hierarchy \<Rightarrow> error + hierarchy" where
  "write_attrs self a h =
     (if read_only (group self) then Inl (NgioValueError GroupReadOnly)
      else Inr (h(group_path (group self) \<mapsto> a)))"

definition child_path :: "zarr_group \<Rightarrow> string \<Rightarrow> string" where
  "child_path g path = (if group_path g = [] then path else group_path g @ ''/'' @ path)"

text \<open>
  \<^verbatim>\<open>get_group(path, create_mode)\<close> and \<^verbatim>\<open>create_group\<close>: a missing group is created unless the
  mode is \<^verbatim>\<open>r\<close>; the store refuses to create a group below a read-only group. A child group
  lives in the store of its parent.
\<close>

definition get_group ::
  "ZarrGroupHandler \<Rightarrow> string \<Rightarrow> bool \<Rightarrow> hierarchy \<Rightarrow> (error + zarr_group) \<times> hierarchy" where
  "get_group self path create_mode h =
     (let p = child_path (group self) path;
          g = \<lparr>group_path = p, read_only = read_only (group self),
               group_store = group_store (group self)\<rparr>
      in case h p of
           Some _ \<Rightarrow> (Inr g, h)
         | None \<Rightarrow>
             if \<not> create_mode then (Inl (NgioFileNotFoundError Other), h)
             else if mode self = ''r'' then (Inl (NgioValueError CreateGroupReadOnly), h)
             else if read_only (group self) then (Inl ReadOnlyError, h)
             else (Inr g, h(p \<mapsto> NoAttrs)))"

definition derive_handler ::
  "ZarrGroupHandler \<Rightarrow> string \<Rightarrow> hierarchy \<Rightarrow> (error + ZarrGroupHandler) \<times> hierarchy" where
  "derive_handler self path h =
     (case get_group self path True h of
        (Inl e, h') \<Rightarrow> (Inl e, h')
      | (Inr g, h') \<Rightarrow>
          (ZarrGroupHandler_init (open_group_wrapper g (mode self))
             (use_cache self) (mode self) (parallel_safe self), h'))"

section \<open>Plate and well documents\<close>

text \<open>
  Modelled from the spec: the classes \<^verbatim>\<open>NgioPlateMeta\<close> and \<^verbatim>\<open>NgioWellMeta\<close> and the metadata
  handlers of \<^verbatim>\<open>ngio.ome_zarr_meta\<close> are not among the sources. Of a plate document only the
  list of wells is modelled, a well being its row and column with the path \<^verbatim>\<open>row/column\<close>; of a
  well document the list of images, each with its path and acquisition.
\<close>

definition well_path :: "WellInPlate \<Rightarrow> string" where
  "well_path w = well_row w @ ''/'' @ well_column w"

definition wells_paths :: "NgioPlateMeta \<Rightarrow> string list" where
  "wells_paths meta = map well_path (wells meta)"

definition is_well :: "string \<Rightarrow> string \<Rightarrow> WellInPlate \<Rightarrow> bool" where
  "is_well row column w = (well_row w = row \<and> well_column w = column)"

text \<open>Modelled from the spec: the path of a well of the plate, not found without the well.\<close>

definition get_well_path :: "NgioPlateMeta \<Rightarrow> string \<Rightarrow> string \<Rightarrow> error + string" where
  "get_well_path meta row column =
     (case find (is_well row column) (wells meta) of
        None \<Rightarrow> Inl (NgioValueError WellNotFound)
      | Some w \<Rightarrow> Inr (well_path w))"


text \<open>Modelled from the spec: the document without the entry of the well.\<close>

definition remove_well :: "NgioPlateMeta \<Rightarrow> string \<Rightarrow> string \<Rightarrow> error + NgioPlateMeta" where
  "remove_well meta row column =
     (if \<exists>w\<in>set (wells meta). is_well row column w
      then Inr (meta\<lparr>wells := filter (\<lambda>w. \<not> is_well row column w) (wells meta)\<rparr>)
      else Inl (NgioValueError WellNotFound))"

text \<open>Modelled from the spec: the image paths of a well, of one acquisition when one is given.\<close>

definition paths :: "NgioWellMeta \<Rightarrow> int option \<Rightarrow> string list" where
  "paths meta acquisition =
     (case acquisition of
        None \<Rightarrow> map image_path (images meta)
      | Some a \<Rightarrow> map image_path (filter (\<lambda>i. image_acquisition i = Some a) (images meta)))"


text \<open>
  Modelled from the spec: the matching image reference is removed, not found when no image has
  the path.
\<close>

definition remove_image :: "NgioWellMeta \<Rightarrow> string \<Rightarrow> error + NgioWellMeta" where
  "remove_image meta path =
     (if path \<in> set (map image_path (images meta))
      then Inr (meta\<lparr>images := filter (\<lambda>i. image_path i \<noteq> path) (images meta)\<rparr>)
      else Inl (NgioValueError ImageNotFound))"


text \<open>
  Modelled from the spec: a metadata handler wraps the group handler it is given; finding one
  validates the attributes of the group, its \<^verbatim>\<open>meta\<close> reads and validates them, its
  \<^verbatim>\<open>write_meta\<close> writes the document through \<^verbatim>\<open>write_attrs\<close>.
\<close>

definition well_meta :: "ZarrGroupHandler \<Rightarrow> hierarchy \<Rightarrow> error + NgioWellMeta" where
  "well_meta gh h =
     (case load_attrs gh h of
        WellAttrs m \<Rightarrow> Inr m
      | _ \<Rightarrow> Inl (NgioValidationError NoValidMetadata))"

definition plate_meta :: "ZarrGroupHandler \<Rightarrow> hierarchy \<Rightarrow> error + NgioPlateMeta" where
  "plate_meta gh h =
     (case load_attrs gh h of
        PlateAttrs m \<Rightarrow> Inr m
      | _ \<Rightarrow> Inl (NgioValidationError NoValidMetadata))"

definition find_well_meta_handler :: "ZarrGroupHandler \<Rightarrow> hierarchy \<Rightarrow> error + ZarrGroupHandler" where
  "find_well_meta_handler gh h =
     (case well_meta gh h of Inl e \<Rightarrow> Inl e | Inr _ \<Rightarrow> Inr gh)"


section \<open>The plate\<close>

record OmeZarrWell =
  well_group_handler :: ZarrGroupHandler
  well_meta_handler :: ZarrGroupHandler

record OmeZarrPlate =
  plate_group_handler :: ZarrGroupHandler
  plate_meta_handler :: ZarrGroupHandler

text \<open>\<^verbatim>\<open>OmeZarrPlate.get_well\<close>; deriving the handler of the well may create its group.\<close>

definition get_well ::
  "OmeZarrPlate \<Rightarrow> string \<Rightarrow> string \<Rightarrow> hierarchy \<Rightarrow> (error + OmeZarrWell) \<times> hierarchy" where
  "get_well self row column h =
     (case plate_meta (plate_meta_handler self) h of
        Inl e \<Rightarrow> (Inl e, h)
      | Inr meta \<Rightarrow>
         (case get_well_path meta row column of
            Inl e \<Rightarrow> (Inl e, h)
          | Inr wp \<Rightarrow>
             (case derive_handler (plate_group_handler self) wp h of
                (Inl e, h') \<Rightarrow> (Inl e, h')
              | (Inr gh, h') \<Rightarrow>
                 (case find_well_meta_handler gh h' of
                    Inl e \<Rightarrow> (Inl e, h')
                  | Inr mh \<Rightarrow>
                      (Inr \<lparr>well_group_handler = gh, well_meta_handler = mh\<rparr>, h')))))"

text \<open>\<^verbatim>\<open>OmeZarrWell.paths\<close>\<close>

definition well_paths :: "OmeZarrWell \<Rightarrow> int option \<Rightarrow> hierarchy \<Rightarrow> error + string list" where
  "well_paths self acquisition h =
     (case well_meta (well_meta_handler self) h of
        Inl e \<Rightarrow> Inl e
      | Inr meta \<Rightarrow> Inr (paths meta acquisition))"

text \<open>\<^verbatim>\<open>OmeZarrPlate.get_image_path\<close>\<close>

definition get_image_path ::
  "OmeZarrPlate \<Rightarrow> string \<Rightarrow> string \<Rightarrow> string \<Rightarrow> hierarchy \<Rightarrow> (error + string) \<times> hierarchy" where
  "get_image_path self row column path h =
     (case get_well self row column h of
        (Inl e, h') \<Rightarrow> (Inl e, h')
      | (Inr well, h') \<Rightarrow>
         (case well_paths well None h' of
            Inl e \<Rightarrow> (Inl e, h')
          | Inr ps \<Rightarrow>
              if path \<notin> set ps then (Inl (ValueError ImageDoesNotExist), h')
              else
                (case plate_meta (plate_meta_handler self) h' of
                   Inl e \<Rightarrow> (Inl e, h')
                 | Inr meta \<Rightarrow>
                    (case get_well_path meta row column of
                       Inl e \<Rightarrow> (Inl e, h')
                     | Inr wp \<Rightarrow> (Inr (wp @ ''/'' @ path), h')))))"

text \<open>
  Entering the \<^verbatim>\<open>FileLock\<close> of a handler is the work of the file lock library: it returns,
  or raises its timeout after the bound of ten seconds. It is a parameter here, a function of the
  lock files this process holds and the lock file asked for. \<^verbatim>\<open>MockLock\<close> does nothing. Neither
  lock changes a document.
\<close>

type_synonym file_lock = "string list \<Rightarrow> string \<Rightarrow> error + unit"

text \<open>
  The lock of a phase and its \<^verbatim>\<open>__enter__\<close>: the file lock of the handler when \<open>atomic\<close>, where
  the property \<^verbatim>\<open>lock\<close> raises for a handler without one, and \<^verbatim>\<open>MockLock()\<close> otherwise. The
  result is the list of lock files held inside the \<^verbatim>\<open>with\<close> block.
\<close>

definition phase_lock ::
  "file_lock \<Rightarrow> bool \<Rightarrow> ZarrGroupHandler \<Rightarrow> string list \<Rightarrow> error + string list" where
  "phase_lock enter atomic gh held =
     (if atomic then
        (case lock gh of
           Inl e \<Rightarrow> Inl e
         | Inr p \<Rightarrow> (case enter held p of Inl e \<Rightarrow> Inl e | Inr _ \<Rightarrow> Inr (p # held)))
      else Inr held)"

definition write_plate_meta :: "OmeZarrPlate \<Rightarrow> NgioPlateMeta \<Rightarrow> hierarchy \<Rightarrow> error + hierarchy" where
  "write_plate_meta self meta h = write_attrs (plate_meta_handler self) (PlateAttrs meta) h"

definition write_well_meta :: "ZarrGroupHandler \<Rightarrow> NgioWellMeta \<Rightarrow> hierarchy \<Rightarrow> error + hierarchy" where
  "write_well_meta mh meta h = write_attrs mh (WellAttrs meta) h"





text \<open>\<^verbatim>\<open>OmeZarrPlate._remove_well\<close>, called while the lock files \<open>held\<close> are held.\<close>

definition remove_well_impl ::
  "file_lock \<Rightarrow> OmeZarrPlate \<Rightarrow> string \<Rightarrow> string \<Rightarrow> bool \<Rightarrow> string list \<Rightarrow> hierarchy
     \<Rightarrow> (error + unit) \<times> hierarchy" where
  "remove_well_impl enter self row column atomic held h =
     (case phase_lock enter atomic (plate_group_handler self) held of
        Inl e \<Rightarrow> (Inl e, h)
      | Inr _ \<Rightarrow>
     (case plate_meta (plate_meta_handler self) h of
        Inl e \<Rightarrow> (Inl e, h)
      | Inr meta \<Rightarrow>
     (case remove_well meta row column of
        Inl e \<Rightarrow> (Inl e, h)
      | Inr meta' \<Rightarrow>
     (case write_plate_meta self meta' h of
        Inl e \<Rightarrow> (Inl e, h)
      | Inr h' \<Rightarrow> (Inr (), h')))))"

text \<open>
  \<^verbatim>\<open>OmeZarrPlate._remove_image\<close>: the well is removed from the plate inside the \<^verbatim>\<open>with\<close> block of
  the well lock.
\<close>

definition remove_image_impl ::
  "file_lock \<Rightarrow> OmeZarrPlate \<Rightarrow> string \<Rightarrow> string \<Rightarrow> string \<Rightarrow> bool \<Rightarrow> hierarchy
     \<Rightarrow> (error + unit) \<times> hierarchy" where
  "remove_image_impl enter self row column path atomic h =
     (case get_well self row column h of
        (Inl e, h1) \<Rightarrow> (Inl e, h1)
      | (Inr well, h1) \<Rightarrow>
     (case phase_lock enter atomic (well_meta_handler well) [] of
        Inl e \<Rightarrow> (Inl e, h1)
      | Inr held \<Rightarrow>
     (case well_meta (well_meta_handler well) h1 of
        Inl e \<Rightarrow> (Inl e, h1)
      | Inr meta \<Rightarrow>
     (case remove_image meta path of
        Inl e \<Rightarrow> (Inl e, h1)
      | Inr meta' \<Rightarrow>
     (case write_well_meta (well_meta_handler well) meta' h1 of
        Inl e \<Rightarrow> (Inl e, h1)
      | Inr h2 \<Rightarrow>
          if length (paths meta' None) = 0
          then remove_well_impl enter self row column atomic held h2
          else (Inr (), h2))))))"

definition atomic_remove_image ::
  "file_lock \<Rightarrow> OmeZarrPlate \<Rightarrow> string \<Rightarrow> string \<Rightarrow> string \<Rightarrow> hierarchy
     \<Rightarrow> (error + unit) \<times> hierarchy" where
  "atomic_remove_image enter self row column path =
     remove_image_impl enter self row column path True"

definition plate_remove_image ::
  "file_lock \<Rightarrow> OmeZarrPlate \<Rightarrow> string \<Rightarrow> string \<Rightarrow> string \<Rightarrow> hierarchy
     \<Rightarrow> (error + unit) \<times> hierarchy" where
  "plate_remove_image enter self row column path =
     remove_image_impl enter self row column path False"

text \<open>
  \<^verbatim>\<open>OmeZarrPlate.__init__\<close>. Modelled from the spec: \<^verbatim>\<open>find_plate_meta_handler\<close> validates the
  attributes of the group as a plate document.
\<close>

definition OmeZarrPlate_init :: "ZarrGroupHandler \<Rightarrow> hierarchy \<Rightarrow> error + OmeZarrPlate" where
  "OmeZarrPlate_init gh h =
     (case plate_meta gh h of
        Inl e \<Rightarrow> Inl e
      | Inr _ \<Rightarrow> Inr \<lparr>plate_group_handler = gh, plate_meta_handler = gh\<rparr>)"

text \<open>
  What holds of every handler that \<^verbatim>\<open>__init__\<close> has built on a group that
  \<^verbatim>\<open>open_group_wrapper\<close> returned.
\<close>

definition handler_ok :: "ZarrGroupHandler \<Rightarrow> bool" where
  "handler_ok gh =
     (mode gh \<in> set [''r'', ''r+'', ''w'', ''w-'', ''a'']
      \<and> \<not> (parallel_safe gh \<and> use_cache gh)
      \<and> group_store (group gh) \<noteq> UnknownStore
      \<and> \<not> (read_only (group gh) \<and> mode gh \<in> set [''w'', ''w-''])
      \<and> (parallel_safe gh \<longrightarrow>
            (case group_store (group gh) of DirectoryStore p \<Rightarrow> True | _ \<Rightarrow> False)))"

text \<open>The handler \<^verbatim>\<open>derive_handler\<close> returns for an existing child group.\<close>

definition derived :: "ZarrGroupHandler \<Rightarrow> string \<Rightarrow> ZarrGroupHandler" where
  "derived gh path =
     \<lparr>group = \<lparr>group_path = child_path (group gh) path,
                read_only = (read_only (group gh) \<or> mode gh = ''r''),
                group_store = group_store (group gh)\<rparr>,
      mode = mode gh,
      store = (case group_store (group gh) of DirectoryStore p \<Rightarrow> PathStore p | _ \<Rightarrow> OtherStore),
      use_cache = use_cache gh,
      parallel_safe = parallel_safe gh,
      lock_path = (if parallel_safe gh
                   then (case group_store (group gh) of
                           DirectoryStore p \<Rightarrow> Some (p @ ''.lock'') | _ \<Rightarrow> None)
                   else None)\<rparr>"

text \<open>
  Entering a \<^verbatim>\<open>FileLock(lock_path, timeout=10)\<close> in one process: the lock file is taken unless
  another lock object holds it, and then the timeout is raised when the bound has passed. Every
  handler has a lock object of its own.
\<close>

definition FileLock_enter :: file_lock where
  "FileLock_enter held p = (if p \<in> set held then Inl Timeout else Inr ())"



subsection \<open>Concrete handlers and hierarchies\<close>

text \<open>The plate at \<^verbatim>\<open>/data/plate.zarr\<close>, opened by this path.\<close>

definition example_group :: zarr_group where
  "example_group =
     \<lparr>group_path = [], read_only = False, group_store = DirectoryStore ''/data/plate.zarr''\<rparr>"

definition example_opened :: "error + zarr_group \<times> store_ref" where
  "example_opened = Inr (example_group, PathStore ''/data/plate.zarr'')"

text \<open>A plate handler without a lock, one with a lock, and the plate of each.\<close>

definition unlocked_handler :: ZarrGroupHandler where
  "unlocked_handler =
     \<lparr>group = example_group, mode = ''r+'',
      store = PathStore ''/data/plate.zarr'', use_cache = False, parallel_safe = False,
      lock_path = None\<rparr>"

definition locked_handler :: ZarrGroupHandler where
  "locked_handler =
     \<lparr>group = example_group, mode = ''r+'',
      store = PathStore ''/data/plate.zarr'', use_cache = False, parallel_safe = True,
      lock_path = Some ''/data/plate.zarr.lock''\<rparr>"

definition unlocked_plate :: OmeZarrPlate where
  "unlocked_plate =
     \<lparr>plate_group_handler = unlocked_handler, plate_meta_handler = unlocked_handler\<rparr>"

definition locked_plate :: OmeZarrPlate where
  "locked_plate =
     \<lparr>plate_group_handler = locked_handler, plate_meta_handler = locked_handler\<rparr>"


definition well_A1 :: WellInPlate where
  "well_A1 = \<lparr>well_row = ''A'', well_column = ''1''\<rparr>"

definition one_image_well :: NgioWellMeta where
  "one_image_well = \<lparr>images = [\<lparr>image_path = ''0'', image_acquisition = None\<rparr>]\<rparr>"

definition one_image_hierarchy :: hierarchy where
  "one_image_hierarchy =
     [[] \<mapsto> PlateAttrs \<lparr>wells = [well_A1]\<rparr>, ''A/1'' \<mapsto> WellAttrs one_image_well]"



section \<open>The handlers manager\<close>

text \<open>
  The registry \<^verbatim>\<open>_implemented_handlers\<close> is a dict from a version to a handler class, in the
  order of insertion. A handler class is its constructor, which returns an instance or raises;
  the classes themselves are not among the sources. What \<^verbatim>\<open>safe_load_meta()\<close> of an instance
  returns is the metadata or a \<^verbatim>\<open>ValidationError\<close>.
\<close>

datatype ('m, 'v) loaded = Meta 'm | ValidationError 'v

type_synonym ('s, 'h) handler_class = "'s \<Rightarrow> bool \<Rightarrow> string \<Rightarrow> error + 'h"

text \<open>
  What \<^verbatim>\<open>get_handler\<close> raises: the \<^verbatim>\<open>NgioValidationError\<close> whose message holds the dict
  \<^verbatim>\<open>_errors\<close>, or whatever the constructor of a handler class raised.
\<close>

datatype 'v manager_error =
    NoKnownVersion "(string \<times> 'v) list"
  | Raised error

definition available_handlers :: "(string \<times> 'c) list \<Rightarrow> string list" where
  "available_handlers implemented_handlers = rev (map fst implemented_handlers)"

definition add_handler ::
  "(string \<times> 'c) list \<Rightarrow> string \<Rightarrow> 'c \<Rightarrow> bool \<Rightarrow> error + (string \<times> 'c) list" where
  "add_handler implemented_handlers key handler overwrite =
     (if key \<in> set (map fst implemented_handlers) \<and> \<not> overwrite
      then Inl (NgioValueError HandlerExists)
      else Inr (AList.update key handler implemented_handlers))"

text \<open>The loop of \<^verbatim>\<open>get_handler\<close> over the reversed items, with the dict \<^verbatim>\<open>_errors\<close>.\<close>

fun get_handler_loop ::
  "('h \<Rightarrow> ('m, 'v) loaded) \<Rightarrow> (string \<times> ('s, 'h) handler_class) list \<Rightarrow> 's \<Rightarrow> bool \<Rightarrow> string
     \<Rightarrow> (string \<times> 'v) list \<Rightarrow> 'v manager_error + 'h" where
  "get_handler_loop safe_load_meta [] store_arg cache mode_arg errors =
     Inl (NoKnownVersion errors)"
| "get_handler_loop safe_load_meta ((version, handler) # items) store_arg cache mode_arg errors =
     (case handler store_arg cache mode_arg of
        Inl e \<Rightarrow> Inl (Raised e)
      | Inr h \<Rightarrow>
         (case safe_load_meta h of
            ValidationError v \<Rightarrow>
              get_handler_loop safe_load_meta items store_arg cache mode_arg
                (AList.update version v errors)
          | Meta _ \<Rightarrow> Inr h))"

definition get_handler ::
  "('h \<Rightarrow> ('m, 'v) loaded) \<Rightarrow> (string \<times> ('s, 'h) handler_class) list \<Rightarrow> 's \<Rightarrow> bool \<Rightarrow> string
     \<Rightarrow> 'v manager_error + 'h" where
  "get_handler safe_load_meta implemented_handlers store_arg cache mode_arg =
     get_handler_loop safe_load_meta (rev implemented_handlers) store_arg cache mode_arg []"

text \<open>The validation error of the handler a class builds, when it builds one that has one.\<close>

definition rejection ::
  "('h \<Rightarrow> ('m, 'v) loaded) \<Rightarrow> 's \<Rightarrow> bool \<Rightarrow> string \<Rightarrow> ('s, 'h) handler_class \<Rightarrow> 'v option" where
  "rejection safe_load_meta store_arg cache mode_arg handler =
     (case handler store_arg cache mode_arg of
        Inl _ \<Rightarrow> None
      | Inr h \<Rightarrow> (case safe_load_meta h of ValidationError v \<Rightarrow> Some v | Meta _ \<Rightarrow> None))"

text \<open>
  Two versions for a store that is a document kind: the handler of a version is its name, and
  it loads the metadata when the document is of its kind.
\<close>

definition example_class :: "string \<Rightarrow> (string, string \<times> string) handler_class" where
  "example_class version document cache mode_arg = Inr (version, document)"

definition example_load :: "string \<times> string \<Rightarrow> (string, string) loaded" where
  "example_load h = (if fst h = snd h then Meta (snd h) else ValidationError (''not '' @ fst h))"

definition example_registry :: "(string \<times> (string, string \<times> string) handler_class) list" where
  "example_registry = [(''0.4'', example_class ''0.4''), (''0.5'', example_class ''0.5'')]"


text \<open>
  A class whose handler loads its metadata from every document, and the registry after the
  version \<^verbatim>\<open>0.4\<close> has been registered again, with \<^verbatim>\<open>overwrite\<close>, as this class.
\<close>

definition accept_all :: "string \<Rightarrow> (string, string \<times> string) handler_class" where
  "accept_all version document cache mode_arg = Inr (version, version)"

definition reregistered_registry ::
  "(string \<times> (string, string \<times> string) handler_class) list" where
  "reregistered_registry = [(''0.4'', accept_all ''0.4''), (''0.5'', example_class ''0.5'')]"

section \<open>Properties of the axes mapper\<close>

lemma list_index_None_iff: "list_index xs v = None \<longleftrightarrow> v \<notin> set xs"
  by (induction xs) auto

lemma list_index_Some: "list_index xs v = Some i \<Longrightarrow> i < length xs \<and> xs ! i = v"
  by (induction xs arbitrary: i) (auto split: if_splits)

lemma list_index_nth: "distinct xs \<Longrightarrow> i < length xs \<Longrightarrow> list_index xs (xs ! i) = Some i"
proof (induction xs arbitrary: i)
  case Nil
  then show ?case by simp
next
  case (Cons x xs)
  show ?case
  proof (cases i)
    case 0
    then show ?thesis by simp
  next
    case (Suc j)
    with Cons.prems have "j < length xs" "xs ! j \<noteq> x" by auto
    with Cons Suc show ?thesis by auto
  qed
qed

lemma canonical_axis_cast_name: "on_disk_name (canonical_axis_cast a k) = on_disk_name a"
  by (simp add: canonical_axis_cast_def implicit_type_cast_def)

lemma cast_first_match_name:
  "cast_first_match self a names = Inr b \<Longrightarrow> on_disk_name b = on_disk_name a"
  by (induction names) (auto simp: canonical_axis_cast_name split: sum.splits if_splits)

lemma validate_axex_type_loop_names:
  "validate_axex_type_loop self axs new = Inr r \<Longrightarrow>
     map on_disk_name r = map on_disk_name new @ map on_disk_name axs"
  by (induction axs arbitrary: new) (auto split: sum.splits dest: cast_first_match_name)

lemma first_loop_eval:
  "fold (\<lambda>(canonical_key, on_disk_value) m.
           AList.update canonical_key
             (if on_disk_value \<in> set names then Some on_disk_value else None) m)
        (model_dump setup) []
   = map (\<lambda>(k, v). (k, if v \<in> set names then Some v else None)) (model_dump setup)"
  by (simp add: model_dump_def)

lemma second_loop_map_of_gen:
  assumes F: "\<And>n m. F n m = (if map_of m n = None then AList.update n (Some n) m else m)"
  shows "map_of (fold F names m0) k
     = (case map_of m0 k of Some v \<Rightarrow> Some v
        | None \<Rightarrow> if k \<in> set names then Some (Some k) else None)"
proof (induction names arbitrary: m0)
  case Nil
  then show ?case by (simp split: option.splits)
next
  case (Cons n names)
  have "map_of (fold F (n # names) m0) k = map_of (fold F names (F n m0)) k"
    by simp
  also have "\<dots> = (case map_of (F n m0) k of Some v \<Rightarrow> Some v
        | None \<Rightarrow> if k \<in> set names then Some (Some k) else None)"
    by (rule Cons.IH)
  also have "\<dots> = (case map_of m0 k of Some v \<Rightarrow> Some v
        | None \<Rightarrow> if k \<in> set (n # names) then Some (Some k) else None)"
    by (auto simp: F[of n m0] update_conv' split: option.splits)
  finally show ?case .
qed

lemma second_loop_distinct_gen:
  assumes F: "\<And>n m. F n m = (if map_of m n = None then AList.update n (Some n) m else m)"
  shows "distinct (map fst m0) \<Longrightarrow> distinct (map fst (fold F names m0))"
proof (induction names arbitrary: m0)
  case Nil
  then show ?case by simp
next
  case (Cons n names)
  have "distinct (map fst (F n m0))"
    using Cons.prems by (simp add: F[of n m0] distinct_update)
  from Cons.IH[OF this] show ?case by simp
qed

lemma second_loop_step:
  "(\<lambda>n m. if n \<notin> set (map fst m) then AList.update n (Some n) m else m) n m
     = (if map_of m n = None then AList.update n (Some n) m else m)"
  by (simp add: map_of_eq_None_iff)

lemmas second_loop_map_of = second_loop_map_of_gen [OF second_loop_step]
lemmas second_loop_distinct = second_loop_distinct_gen [OF second_loop_step]

lemma name_mapping_map_of:
  "map_of (compute_name_mapping setup names) k =
     (case map_of (model_dump setup) k of
        Some v \<Rightarrow> Some (if v \<in> set names then Some v else None)
      | None \<Rightarrow> if k \<in> set names then Some (Some k) else None)"
  unfolding compute_name_mapping_def Let_def first_loop_eval second_loop_map_of
  by (simp add: model_dump_def)

lemma name_mapping_keys:
  "k \<in> set (map fst (compute_name_mapping setup names)) \<longleftrightarrow>
     k \<in> set canonical_axes_order \<or> k \<in> set names"
proof -
  have "k \<in> set (map fst (compute_name_mapping setup names)) \<longleftrightarrow>
        map_of (compute_name_mapping setup names) k \<noteq> None"
    by (simp add: map_of_eq_None_iff)
  also have "\<dots> \<longleftrightarrow> k \<in> set canonical_axes_order \<or> k \<in> set names"
    by (simp add: name_mapping_map_of model_dump_def canonical_axes_order_def)
  finally show ?thesis .
qed

lemma name_mapping_distinct: "distinct (map fst (compute_name_mapping setup names))"
  unfolding compute_name_mapping_def Let_def first_loop_eval
  by (rule second_loop_distinct) (simp add: model_dump_def)

lemma name_mapping_values:
  "map_of (compute_name_mapping setup names) k = Some (Some v) \<Longrightarrow> v \<in> set names"
  by (auto simp: name_mapping_map_of split: option.splits if_splits)

lemma index_loop_map_of:
  "compute_index_mapping_loop names items im0 = Inr im \<Longrightarrow> distinct (map fst items) \<Longrightarrow>
     map_of im k = (case map_of items k of
                      Some v \<Rightarrow> Some (Option.bind v (list_index names))
                    | None \<Rightarrow> map_of im0 k)"
proof (induction items arbitrary: im0)
  case Nil
  then show ?case by simp
next
  case (Cons kv items)
  obtain k0 v0 where kv: "kv = (k0, v0)" by (cases kv)
  from Cons.prems(2) kv have nk: "map_of items k0 = None" and d: "distinct (map fst items)"
    by (auto simp: map_of_eq_None_iff)
  show ?case
  proof (cases v0)
    case None
    with Cons.prems(1) kv have "compute_index_mapping_loop names items (AList.update k0 None im0) = Inr im"
      by simp
    from Cons.IH[OF this d] show ?thesis using nk kv None
      by (auto simp: update_conv' split: option.splits)
  next
    case (Some v)
    with Cons.prems(1) kv obtain i where i: "list_index names v = Some i"
      and l: "compute_index_mapping_loop names items (AList.update k0 (Some i) im0) = Inr im"
      by (auto split: option.splits)
    from Cons.IH[OF l d] show ?thesis using nk kv Some i
      by (auto simp: update_conv' split: option.splits)
  qed
qed

lemma index_loop_keys:
  "compute_index_mapping_loop names items im0 = Inr im \<Longrightarrow>
     set (map fst im) = set (map fst im0) \<union> set (map fst items)"
proof (induction items arbitrary: im0)
  case Nil
  then show ?case by simp
next
  case (Cons kv items)
  obtain k0 v0 where kv: "kv = (k0, v0)" by (cases kv)
  from Cons.prems kv obtain w where
    "compute_index_mapping_loop names items (AList.update k0 w im0) = Inr im"
    by (auto split: option.splits)
  from Cons.IH[OF this] show ?case using kv dom_update[of k0 w im0] by auto
qed

lemma index_loop_succeeds:
  "(\<And>k v. (k, Some v) \<in> set items \<Longrightarrow> v \<in> set names) \<Longrightarrow>
     \<exists>im. compute_index_mapping_loop names items im0 = Inr im"
proof (induction items arbitrary: im0)
  case Nil
  then show ?case by simp
next
  case (Cons kv items)
  obtain k0 v0 where kv: "kv = (k0, v0)" by (cases kv)
  have r: "\<And>k v. (k, Some v) \<in> set items \<Longrightarrow> v \<in> set names" using Cons.prems by auto
  show ?case
  proof (cases v0)
    case None
    then show ?thesis using Cons.IH[OF r] kv by simp
  next
    case (Some v)
    with Cons.prems kv have "v \<in> set names" by auto
    then obtain i where "list_index names v = Some i"
      using list_index_None_iff[of names v] by (cases "list_index names v") auto
    then show ?thesis using Cons.IH[OF r] kv Some by simp
  qed
qed

lemma AxesMapper_init_InrD:
  assumes "AxesMapper_init axes so allow strict = Inr m"
  shows "\<exists>im new. validate_axes axes (setup_of so) allow strict = Inr ()
           \<and> compute_index_mapping (map on_disk_name axes)
                 (compute_name_mapping (setup_of so) (map on_disk_name axes)) = Inr im
           \<and> validate_axex_type_loop (built axes (setup_of so) allow strict im) axes [] = Inr new
           \<and> m = (built axes (setup_of so) allow strict im)\<lparr>on_disk_axes := new\<rparr>"
  using assms
  unfolding AxesMapper_init_def validate_axex_type_def built_def setup_of_def Let_def
  by (auto split: sum.splits)

lemma AxesMapper_init_InrI:
  assumes "validate_axes axes (setup_of so) allow strict = Inr ()"
    and "compute_index_mapping (map on_disk_name axes)
                 (compute_name_mapping (setup_of so) (map on_disk_name axes)) = Inr im"
    and "validate_axex_type_loop (built axes (setup_of so) allow strict im) axes [] = Inr new"
  shows "AxesMapper_init axes so allow strict = Inr ((built axes (setup_of so) allow strict im)\<lparr>on_disk_axes := new\<rparr>)"
  using assms
  unfolding AxesMapper_init_def validate_axex_type_def built_def setup_of_def Let_def
  by (auto split: sum.splits)

lemma AxesMapper_init_names:
  assumes "AxesMapper_init axes so allow strict = Inr m"
  shows "map on_disk_name (on_disk_axes m) = map on_disk_name axes"
proof -
  from AxesMapper_init_InrD[OF assms] obtain im new where
    l: "validate_axex_type_loop (built axes (setup_of so) allow strict im) axes [] = Inr new"
    and m: "m = (built axes (setup_of so) allow strict im)\<lparr>on_disk_axes := new\<rparr>"
    by blast
  from validate_axex_type_loop_names[OF l] m show ?thesis by simp
qed


lemma index_mapping_map_of:
  assumes "compute_index_mapping names (compute_name_mapping setup names) = Inr im"
  shows "map_of im k =
     map_option (\<lambda>v. Option.bind v (list_index names)) (map_of (compute_name_mapping setup names) k)"
  using index_loop_map_of[OF assms[unfolded compute_index_mapping_def] name_mapping_distinct, of k]
  by (simp split: option.splits)

lemma index_mapping_bound:
  assumes "compute_index_mapping names (compute_name_mapping setup names) = Inr im"
    and "map_of im k = Some (Some i)"
  shows "i < length names"
proof -
  from assms(2) index_mapping_map_of[OF assms(1), of k]
  obtain v where "list_index names v = Some i"
    by (cases "map_of (compute_name_mapping setup names) k") (auto simp: Option.bind_eq_Some_conv)
  then show ?thesis by (simp add: list_index_Some)
qed

lemma get_index_built:
  assumes "compute_index_mapping names (compute_name_mapping setup names) = Inr im"
    and "index_mapping M = im"
  shows "get_index M k =
     (case map_of (compute_name_mapping setup names) k of
        None \<Rightarrow> Inl (NgioValueError InvalidAxisName)
      | Some v \<Rightarrow> Inr (Option.bind v (list_index names)))"
proof -
  have "k \<in> set (map fst im) \<longleftrightarrow> map_of im k \<noteq> None"
    by (simp add: map_of_eq_None_iff)
  then show ?thesis
    using index_mapping_map_of[OF assms(1), of k] assms(2)
    by (auto simp: get_index_def split: option.splits)
qed

lemma get_axis_built:
  assumes "compute_index_mapping names (compute_name_mapping setup names) = Inr im"
    and "index_mapping M = im" and "length (on_disk_axes M) = length names"
  shows "get_axis M k =
     (case map_of (compute_name_mapping setup names) k of
        None \<Rightarrow> Inl (NgioValueError InvalidAxisName)
      | Some v \<Rightarrow>
         (case Option.bind v (list_index names) of
            None \<Rightarrow> Inr None
          | Some i \<Rightarrow> Inr (Some (on_disk_axes M ! i))))"
proof (cases "map_of (compute_name_mapping setup names) k")
  case None
  then show ?thesis by (simp add: get_axis_def get_index_built[OF assms(1,2)])
next
  case (Some v)
  show ?thesis
  proof (cases "Option.bind v (list_index names)")
    case None
    with Some show ?thesis by (simp add: get_axis_def get_index_built[OF assms(1,2)])
  next
    case (Some i)
    with \<open>map_of (compute_name_mapping setup names) k = Some v\<close>
    have "map_of im k = Some (Some i)"
      by (simp add: index_mapping_map_of[OF assms(1)])
    from index_mapping_bound[OF assms(1) this] have "i < length (on_disk_axes M)"
      by (simp add: assms(3))
    with Some \<open>map_of (compute_name_mapping setup names) k = Some v\<close> show ?thesis
      by (simp add: get_axis_def get_index_built[OF assms(1,2)])
  qed
qed

text \<open>What a constructed mapper is made of.\<close>

lemma AxesMapper_init_parts:
  assumes "AxesMapper_init axes so allow strict = Inr m"
  shows "compute_index_mapping (map on_disk_name axes)
           (compute_name_mapping (setup_of so) (map on_disk_name axes)) = Inr (index_mapping m)"
    and "name_mapping m = compute_name_mapping (setup_of so) (map on_disk_name axes)"
    and "length (on_disk_axes m) = length (map on_disk_name axes)"
    and "validate_axes axes (setup_of so) allow strict = Inr ()"
    and "extended_canonical_order m = others (setup_of so) @ canonical_axes_order"
proof -
  from AxesMapper_init_InrD[OF assms] obtain im new where
    v: "validate_axes axes (setup_of so) allow strict = Inr ()"
    and c: "compute_index_mapping (map on_disk_name axes)
                 (compute_name_mapping (setup_of so) (map on_disk_name axes)) = Inr im"
    and m: "m = (built axes (setup_of so) allow strict im)\<lparr>on_disk_axes := new\<rparr>"
    by blast
  from m have im: "index_mapping m = im" by (simp add: built_def)
  show "compute_index_mapping (map on_disk_name axes)
           (compute_name_mapping (setup_of so) (map on_disk_name axes)) = Inr (index_mapping m)"
    using c im by simp
  show "name_mapping m = compute_name_mapping (setup_of so) (map on_disk_name axes)"
    using m by (simp add: built_def)
  show "length (on_disk_axes m) = length (map on_disk_name axes)"
    using map_eq_imp_length_eq[OF AxesMapper_init_names[OF assms]] by simp
  show "validate_axes axes (setup_of so) allow strict = Inr ()" by (rule v)
  show "extended_canonical_order m = others (setup_of so) @ canonical_axes_order"
    using m by (simp add: built_def)
qed


lemma check_unique_names_iff:
  "check_unique_names axes = (if distinct (map on_disk_name axes) then Inr ()
                              else Inl (NgioValidationError AxesNotUnique))"
proof -
  have "length (remdups (map on_disk_name axes)) = length (map on_disk_name axes)
        \<longleftrightarrow> distinct (map on_disk_name axes)"
    by (simp only: length_remdups_eq remdups_id_iff_distinct)
  then show ?thesis by (simp add: check_unique_names_def Let_def)
qed

lemma check_axes_validity_loop_iff:
  "check_axes_validity_loop known axes =
     (if \<forall>a\<in>set axes. on_disk_name a \<in> set known then Inr ()
      else Inl (NgioValidationError InvalidAxisName))"
  by (induction axes) auto

lemma canonical_order_loop_gen:
  "(\<And>k. k \<in> set ks \<Longrightarrow> getattr asetup k = Inr (f k)) \<Longrightarrow>
     canonical_order_loop asetup names ks acc
       = Inr (acc @ filter (\<lambda>v. v \<in> set names) (map f ks))"
  by (induction ks arbitrary: acc) auto

lemma canonical_order_loop_eval:
  "canonical_order_loop asetup names canonical_axes_order [] =
     Inr (filter (\<lambda>v. v \<in> set names)
            [setup_t asetup, setup_c asetup, setup_z asetup, setup_y asetup, setup_x asetup])"
proof -
  let ?f = "\<lambda>k. if k = ''t'' then setup_t asetup else if k = ''c'' then setup_c asetup
                else if k = ''z'' then setup_z asetup else if k = ''y'' then setup_y asetup
                else setup_x asetup"
  have "canonical_order_loop asetup names canonical_axes_order []
       = Inr ([] @ filter (\<lambda>v. v \<in> set names) (map ?f canonical_axes_order))"
    by (rule canonical_order_loop_gen)
       (auto simp: canonical_axes_order_def getattr_def model_dump_def)
  then show ?thesis by (simp add: canonical_axes_order_def)
qed

lemma validate_axes_eval_gen:
  assumes "canonical_order_loop asetup (map on_disk_name axes) canonical_axes_order [] = Inr co"
  shows "validate_axes axes asetup allow strict =
     (if allow \<and> strict then Inl (NgioValidationError FlagsExclusive)
      else if \<not> distinct (map on_disk_name axes) then Inl (NgioValidationError AxesNotUnique)
      else if \<not> allow \<and> others asetup \<noteq> [] then Inl (NgioValidationError UnknownAxes)
      else if \<not> (\<forall>a\<in>set axes. on_disk_name a \<in>
                   set (map snd (model_dump asetup)) \<union> set (others asetup))
        then Inl (NgioValidationError InvalidAxisName)
      else if strict \<and> map on_disk_name axes \<noteq> co
        then Inl (NgioValidationError InvalidAxesOrder)
      else Inr ())"
  unfolding validate_axes_def check_unique_names_iff check_non_canonical_axes_def
    check_axes_validity_def check_axes_validity_loop_iff check_canonical_order_def Let_def
    assms
  by (auto simp del: set_map)

lemmas validate_axes_eval = validate_axes_eval_gen [OF canonical_order_loop_eval]

lemma cast_first_match_succeeds:
  "(\<And>k. k \<in> set ks \<Longrightarrow> \<exists>r. get_axis M k = Inr r) \<Longrightarrow> \<exists>b. cast_first_match M a ks = Inr b"
proof (induction ks)
  case Nil
  then show ?case by simp
next
  case (Cons k ks)
  from Cons.prems[of k] obtain r where r: "get_axis M k = Inr r" by auto
  have "\<exists>b. cast_first_match M a ks = Inr b"
    by (rule Cons.IH) (simp add: Cons.prems)
  with r show ?case by auto
qed

lemma validate_axex_type_loop_succeeds:
  "(\<And>k. k \<in> set (canonical_order M) \<Longrightarrow> \<exists>r. get_axis M k = Inr r) \<Longrightarrow>
     \<exists>new. validate_axex_type_loop M axs acc = Inr new"
proof (induction axs arbitrary: acc)
  case Nil
  then show ?case by simp
next
  case (Cons a axs)
  from cast_first_match_succeeds[of "canonical_order M" M a] Cons.prems
  obtain b where b: "cast_first_match M a (canonical_order M) = Inr b" by blast
  from Cons.IH[of "acc @ [b]"] Cons.prems
  obtain new where "validate_axex_type_loop M axs (acc @ [b]) = Inr new" by blast
  with b show ?case by simp
qed

lemma compute_index_mapping_succeeds:
  "\<exists>im. compute_index_mapping names (compute_name_mapping setup names) = Inr im"
  unfolding compute_index_mapping_def
proof (rule index_loop_succeeds)
  fix k v
  assume "(k, Some v) \<in> set (compute_name_mapping setup names)"
  then have "map_of (compute_name_mapping setup names) k = Some (Some v)"
    using name_mapping_distinct by simp
  then show "v \<in> set names" by (rule name_mapping_values)
qed

lemma AxesMapper_init_succeeds:
  assumes "validate_axes axes (setup_of so) allow strict = Inr ()"
  shows "\<exists>m. AxesMapper_init axes so allow strict = Inr m"
proof -
  let ?names = "map on_disk_name axes"
  from compute_index_mapping_succeeds obtain im where
    im: "compute_index_mapping ?names (compute_name_mapping (setup_of so) ?names) = Inr im"
    by blast
  let ?M = "built axes (setup_of so) allow strict im"
  have "\<exists>new. validate_axex_type_loop ?M axes [] = Inr new"
  proof (rule validate_axex_type_loop_succeeds)
    fix k
    assume "k \<in> set (canonical_order ?M)"
    then have "k \<in> set canonical_axes_order" by (simp add: built_def)
    then have "k \<in> set (map fst (compute_name_mapping (setup_of so) ?names))"
      by (simp only: name_mapping_keys) simp
    then obtain v where v: "map_of (compute_name_mapping (setup_of so) ?names) k = Some v"
      by (cases "map_of (compute_name_mapping (setup_of so) ?names) k")
         (auto simp: map_of_eq_None_iff)
    have "index_mapping ?M = im" "length (on_disk_axes ?M) = length ?names"
      by (simp_all add: built_def)
    from get_axis_built[OF im this, of k] v show "\<exists>r. get_axis ?M k = Inr r"
      by (auto split: option.splits)
  qed
  then obtain new where "validate_axex_type_loop ?M axes [] = Inr new" by blast
  from AxesMapper_init_InrI[OF assms im this] show ?thesis by blast
qed

lemma AxesMapper_init_Inl:
  assumes "AxesMapper_init axes so allow strict = Inl e"
  shows "validate_axes axes (setup_of so) allow strict = Inl e"
proof (cases "validate_axes axes (setup_of so) allow strict")
  case (Inl e')
  with assms show ?thesis
    by (simp add: AxesMapper_init_def setup_of_def Let_def)
next
  case (Inr u)
  then have "validate_axes axes (setup_of so) allow strict = Inr ()" by simp
  from AxesMapper_init_succeeds[OF this] assms show ?thesis by auto
qed


lemma canonical_axis_cast_family:
  "k \<in> set canonical_axes_order \<Longrightarrow> expected_family k (canonical_axis_cast a k)"
  by (auto simp: canonical_axes_order_def expected_family_def canonical_axis_cast_def
        implicit_type_cast_def)

lemma canonical_axis_cast_unit:
  "unit (canonical_axis_cast a k) =
     (if k = ''t'' then (if is_TimeUnits (unit a) then unit a else Some (Time TimeUnits_default))
      else if k = ''c'' then None
      else if k = ''z'' \<or> k = ''y'' \<or> k = ''x''
        then (if is_SpaceUnits (unit a) then unit a else Some (Space SpaceUnits_default))
      else unit a)"
  by (auto simp: canonical_axis_cast_def implicit_type_cast_def)

lemma cast_first_match_find:
  "cast_first_match M a ks = Inr b \<Longrightarrow>
     b = (case find (\<lambda>k. get_axis M k = Inr (Some a)) ks of
            None \<Rightarrow> a
          | Some k \<Rightarrow> canonical_axis_cast a k)"
  by (induction ks) (auto split: sum.splits if_splits)

lemma validate_axex_type_loop_all2:
  "validate_axex_type_loop M axs acc = Inr new \<Longrightarrow>
     \<exists>bs. new = acc @ bs
        \<and> list_all2 (\<lambda>a b. cast_first_match M a (canonical_order M) = Inr b) axs bs"
proof (induction axs arbitrary: acc)
  case Nil
  then show ?case by simp
next
  case (Cons a axs)
  from Cons.prems obtain b where b: "cast_first_match M a (canonical_order M) = Inr b"
    and l: "validate_axex_type_loop M axs (acc @ [b]) = Inr new"
    by (auto split: sum.splits)
  from Cons.IH[OF l] obtain bs where "new = (acc @ [b]) @ bs"
    and "list_all2 (\<lambda>a b. cast_first_match M a (canonical_order M) = Inr b) axs bs"
    by blast
  with b have "new = acc @ (b # bs)
     \<and> list_all2 (\<lambda>a b. cast_first_match M a (canonical_order M) = Inr b) (a # axs) (b # bs)"
    by simp
  then show ?case by blast
qed

text \<open>Each axis of a constructed mapper is the cast of the axis it was built from.\<close>

lemma AxesMapper_init_nth:
  assumes "AxesMapper_init axes so allow strict = Inr m" and "i < length axes"
  shows "on_disk_axes m ! i =
     (case find (\<lambda>k. get_index m k = Inr (Some i)) canonical_axes_order of
        None \<Rightarrow> axes ! i
      | Some k \<Rightarrow> canonical_axis_cast (axes ! i) k)"
proof -
  let ?names = "map on_disk_name axes"
  from AxesMapper_init_InrD[OF assms(1)] obtain im new where
    v: "validate_axes axes (setup_of so) allow strict = Inr ()"
    and c: "compute_index_mapping ?names (compute_name_mapping (setup_of so) ?names) = Inr im"
    and l: "validate_axex_type_loop (built axes (setup_of so) allow strict im) axes [] = Inr new"
    and m: "m = (built axes (setup_of so) allow strict im)\<lparr>on_disk_axes := new\<rparr>"
    by blast
  let ?M = "built axes (setup_of so) allow strict im"
  have d: "distinct ?names"
    using v unfolding validate_axes_eval by (simp split: if_splits)
  have imM: "index_mapping ?M = im" and lenM: "length (on_disk_axes ?M) = length ?names"
    and axM: "on_disk_axes ?M = axes" and coM: "canonical_order ?M = canonical_axes_order"
    by (simp_all add: built_def)
  have gi: "get_index m k = get_index ?M k" for k
    using m by (simp add: get_index_def built_def)
  have P: "(get_axis ?M k = Inr (Some (axes ! i))) = (get_index m k = Inr (Some i))" for k
  proof
    assume "get_axis ?M k = Inr (Some (axes ! i))"
    then obtain j where j: "get_index ?M k = Inr (Some j)" "j < length axes" "axes ! j = axes ! i"
      by (auto simp: get_axis_def axM split: sum.splits option.splits if_splits)
    then have "?names ! j = ?names ! i" using assms(2) by simp
    with nth_eq_iff_index_eq[OF d, of j i] j(2) assms(2) have "j = i" by simp
    with j show "get_index m k = Inr (Some i)" by (simp add: gi)
  next
    assume "get_index m k = Inr (Some i)"
    then show "get_axis ?M k = Inr (Some (axes ! i))"
      using assms(2) by (simp add: get_axis_def gi axM)
  qed
  from validate_axex_type_loop_all2[OF l] have
    "list_all2 (\<lambda>a b. cast_first_match ?M a (canonical_order ?M) = Inr b) axes new"
    by simp
  from list_all2_nthD[OF this assms(2)]
  have "cast_first_match ?M (axes ! i) canonical_axes_order = Inr (new ! i)"
    by (simp add: coM)
  from cast_first_match_find[OF this] have "new ! i =
     (case find (\<lambda>k. get_axis ?M k = Inr (Some (axes ! i))) canonical_axes_order of
        None \<Rightarrow> axes ! i
      | Some k \<Rightarrow> canonical_axis_cast (axes ! i) k)" .
  then show ?thesis using m by (simp add: P)
qed


lemma two_slot_mapper_init:
  "AxesMapper_init two_slot_axes (Some two_slot_setup) False False = Inr two_slot_mapper"
  by code_simp


section \<open>Inserting and removing positions\<close>

lemma nth_Cons_diff: "i < j \<Longrightarrow> (b # bs) ! (j - i) = bs ! (j - Suc i)"
  by (simp add: nth_Cons')

lemma mask_positions_mem:
  "j \<in> set (mask_positions i bs) \<longleftrightarrow> i \<le> j \<and> j < i + length bs \<and> bs ! (j - i)"
proof (induction bs arbitrary: i j)
  case Nil
  then show ?case by simp
next
  case (Cons b bs)
  show ?case
  proof (cases "j = i")
    case True
    then show ?thesis by (simp add: Cons.IH)
  next
    case False
    then show ?thesis using nth_Cons_diff[of i j b bs] by (auto simp: Cons.IH)
  qed
qed

lemma mask_positions_distinct: "distinct (mask_positions i bs)"
  by (induction bs arbitrary: i) (auto simp: mask_positions_mem)

lemma mask_positions_length: "length (mask_positions i bs) = length (filter id bs)"
  by (induction bs arbitrary: i) auto

lemma length_mask_split: "length (filter id bs) + length (filter Not bs) = length bs"
  by (induction bs) auto

lemma agrees_mask_positions: "agrees (mask_positions i bs) i bs"
  by (simp add: agrees_def mask_positions_mem)

lemma agrees_Cons: "agrees ps i (b # bs) \<Longrightarrow> (i \<in> set ps) = b \<and> agrees ps (Suc i) bs"
proof
  assume a: "agrees ps i (b # bs)"
  then show "(i \<in> set ps) = b" unfolding agrees_def by (drule_tac x = i in spec) simp
  show "agrees ps (Suc i) bs"
    unfolding agrees_def
  proof (intro allI impI)
    fix j assume j: "Suc i \<le> j \<and> j < Suc i + length bs"
    then have "(b # bs) ! (j - i) = bs ! (j - Suc i)" by (simp add: nth_Cons_diff)
    with a j show "(j \<in> set ps) = bs ! (j - Suc i)" unfolding agrees_def
      by (drule_tac x = j in spec) simp
  qed
qed

lemma interleave_length:
  "length xs = length (filter Not bs) \<Longrightarrow> length (interleave bs v xs) = length bs"
  by (induction bs v xs rule: interleave.induct) auto

lemma fill_positions_interleave:
  "agrees ps i bs \<Longrightarrow> length xs = length (filter Not bs) \<Longrightarrow>
     fill_positions ps v i (length bs) xs = interleave bs v xs"
proof (induction bs arbitrary: i xs)
  case Nil
  then show ?case by simp
next
  case (Cons b bs)
  from agrees_Cons[OF Cons.prems(1)] have b: "(i \<in> set ps) = b" and a: "agrees ps (Suc i) bs"
    by auto
  show ?case
  proof (cases b)
    case True
    with Cons.prems(2) have "length xs = length (filter Not bs)" by simp
    from Cons.IH[OF a this] True b show ?thesis by simp
  next
    case False
    with Cons.prems(2) obtain x r where xs: "xs = x # r" and r: "length r = length (filter Not bs)"
      by (cases xs) auto
    from Cons.IH[OF a r] False b xs show ?thesis by simp
  qed
qed

lemma drop_positions_interleave:
  "agrees ps i bs \<Longrightarrow> length xs = length (filter Not bs) \<Longrightarrow>
     drop_positions ps i (interleave bs v xs) = xs"
proof (induction bs arbitrary: i xs)
  case Nil
  then show ?case by simp
next
  case (Cons b bs)
  from agrees_Cons[OF Cons.prems(1)] have b: "(i \<in> set ps) = b" and a: "agrees ps (Suc i) bs"
    by auto
  show ?case
  proof (cases b)
    case True
    with Cons.prems(2) have "length xs = length (filter Not bs)" by simp
    from Cons.IH[OF a this] True b show ?thesis by simp
  next
    case False
    with Cons.prems(2) obtain x r where xs: "xs = x # r" and r: "length r = length (filter Not bs)"
      by (cases xs) auto
    from Cons.IH[OF a r] False b xs show ?thesis by simp
  qed
qed

lemma interleave_nth_True:
  "length xs = length (filter Not bs) \<Longrightarrow> j < length bs \<Longrightarrow> bs ! j \<Longrightarrow>
     interleave bs v xs ! j = v"
proof (induction bs v xs arbitrary: j rule: interleave.induct)
  case (1 v xs)
  then show ?case by simp
next
  case (2 bs v xs)
  then show ?case by (cases j) auto
next
  case (3 bs v)
  then show ?case by (cases j) auto
next
  case (4 bs v x xs)
  then show ?case by (cases j) auto
qed

lemma interleave_all2:
  "list_all2 P xs ys \<Longrightarrow> P v w \<Longrightarrow> length xs = length (filter Not bs) \<Longrightarrow>
     list_all2 P (interleave bs v xs) (interleave bs w ys)"
proof (induction bs arbitrary: xs ys)
  case Nil
  then show ?case by simp
next
  case (Cons b bs)
  show ?case
  proof (cases b)
    case True
    with Cons show ?thesis by simp
  next
    case False
    with Cons.prems(3) obtain x r where xs: "xs = x # r" and r: "length r = length (filter Not bs)"
      by (cases xs) auto
    with Cons.prems(1) obtain y s where ys: "ys = y # s" and p: "P x y" "list_all2 P r s"
      by (cases ys) auto
    from Cons.IH[OF p(2) Cons.prems(2) r] False xs ys p(1) show ?thesis by simp
  qed
qed

text \<open>The two loops over a list.\<close>

lemma expand_list_interleave:
  "length pre = i \<Longrightarrow> length ys = length (filter Not bs) \<Longrightarrow>
     expand_list (pre @ ys) d (mask_positions i bs) = pre @ interleave bs d ys"
proof (induction bs arbitrary: i pre ys)
  case Nil
  then show ?case by (simp add: expand_list_def)
next
  case (Cons b bs)
  show ?case
  proof (cases b)
    case True
    with Cons.prems have l: "length (pre @ [d]) = Suc i" "length ys = length (filter Not bs)"
      by auto
    have "expand_list (pre @ ys) d (mask_positions i (b # bs))
          = expand_list ((pre @ [d]) @ ys) d (mask_positions (Suc i) bs)"
      using True Cons.prems(1) by (simp add: expand_list_def list_insert_def)
    with Cons.IH[OF l] True show ?thesis by simp
  next
    case False
    with Cons.prems(2) obtain y r where ys: "ys = y # r" and r: "length r = length (filter Not bs)"
      by (cases ys) auto
    from Cons.prems(1) have l: "length (pre @ [y]) = Suc i" by simp
    have "expand_list (pre @ ys) d (mask_positions i (b # bs))
          = expand_list ((pre @ [y]) @ r) d (mask_positions (Suc i) bs)"
      using False ys by (simp add: expand_list_def)
    with Cons.IH[OF l r] False ys show ?thesis by simp
  qed
qed

lemma squeeze_list_interleave:
  "length pre + k = i \<Longrightarrow> length ys = length (filter Not bs) \<Longrightarrow>
     squeeze_list (pre @ interleave bs d ys) k (mask_positions i bs) = Inr (pre @ ys)"
proof (induction bs arbitrary: i k pre ys)
  case Nil
  then show ?case by simp
next
  case (Cons b bs)
  show ?case
  proof (cases b)
    case True
    with Cons.prems have l: "length pre + Suc k = Suc i" "length ys = length (filter Not bs)"
      by auto
    have "int i - int k = int (length pre)" using Cons.prems(1) by simp
    then have "list_pop (pre @ d # interleave bs d ys) (int i - int k)
               = Inr (pre @ interleave bs d ys)"
      by (simp add: list_pop_def)
    with Cons.IH[OF l] True show ?thesis by simp
  next
    case False
    with Cons.prems(2) obtain y r where ys: "ys = y # r" and r: "length r = length (filter Not bs)"
      by (cases ys) auto
    from Cons.prems(1) have l: "length (pre @ [y]) + k = Suc i" by simp
    from Cons.IH[OF l r] False ys show ?thesis by simp
  qed
qed

section \<open>Permutations and their argsort\<close>

lemma is_perm_length: "is_perm p n \<Longrightarrow> length p = n"
  unfolding is_perm_def using distinct_card[of p] by auto

lemma is_perm_nth: "is_perm p n \<Longrightarrow> i < n \<Longrightarrow> p ! i < n"
  using is_perm_length[of p n] nth_mem[of i p] by (auto simp: is_perm_def)

lemma is_permI:
  assumes "distinct p" "length p = n" "\<And>i. i \<in> set p \<Longrightarrow> i < n"
  shows "is_perm p n"
proof -
  have s: "set p \<subseteq> {0..<n}" using assms(3) by auto
  have "card (set p) = card {0..<n}" using distinct_card[OF assms(1)] assms(2) by simp
  with s have "set p = {0..<n}" by (simp add: card_subset_eq)
  with assms(1) show ?thesis by (simp add: is_perm_def)
qed

lemma argsort_sorted_keys:
  assumes "is_perm p n"
  shows "map fst (sort_key fst (zip p [0..<n])) = [0..<n]"
proof -
  let ?z = "zip p [0..<n]"
  let ?s = "sort_key fst ?z"
  have len: "length p = n" by (rule is_perm_length[OF assms])
  have mz: "map fst ?z = p" using len by (simp add: map_fst_zip)
  have dz: "distinct (map fst ?z)" using assms mz by (simp add: is_perm_def)
  then have inj: "inj_on fst (set ?z)" and dzz: "distinct ?z"
    by (auto simp: distinct_map)
  have "distinct (map fst ?s)"
    using inj dzz by (simp add: distinct_map)
  moreover have "sorted (map fst ?s)" by (rule sorted_sort_key)
  moreover have "set (map fst ?s) = set [0..<n]"
  proof -
    have "set (map fst ?s) = fst ` set ?z" by simp
    also have "\<dots> = set (map fst ?z)" by simp
    also have "\<dots> = {0..<n}" using mz assms by (simp add: is_perm_def)
    finally show ?thesis by simp
  qed
  ultimately show ?thesis
    using sorted_distinct_set_unique[of "map fst ?s" "[0..<n]"] by simp
qed

lemma argsort_length: "length (argsort p) = length p"
  by (simp add: argsort_def)

lemma argsort_inverse:
  assumes "is_perm p n" and "j < n"
  shows "argsort p ! j < n \<and> p ! (argsort p ! j) = j"
proof -
  let ?z = "zip p [0..<n]"
  let ?s = "sort_key fst ?z"
  have len: "length p = n" by (rule is_perm_length[OF assms(1)])
  have ls: "length ?s = n" using len by simp
  have "map fst ?s ! j = [0..<n] ! j" by (simp only: argsort_sorted_keys[OF assms(1)])
  then have f: "fst (?s ! j) = j" using assms(2) ls by simp
  have "?s ! j \<in> set ?s" using assms(2) ls by (simp only: nth_mem)
  then have "?s ! j \<in> set ?z" by simp
  then obtain i where i: "i < n" "?s ! j = (p ! i, i)"
    using len by (auto simp: in_set_zip)
  have q: "argsort p ! j = snd (?s ! j)"
    using assms(2) ls len by (simp add: argsort_def)
  from i f q show ?thesis by simp
qed

lemma argsort_perm:
  assumes "is_perm p n"
  shows "is_perm (argsort p) n"
proof (rule is_permI)
  have len: "length p = n" by (rule is_perm_length[OF assms])
  show l: "length (argsort p) = n" using len by (simp add: argsort_length)
  show "distinct (argsort p)"
    unfolding distinct_conv_nth
  proof (intro allI impI)
    fix i j assume "i < length (argsort p)" "j < length (argsort p)" "i \<noteq> j"
    then have "i < n" "j < n" using l by auto
    from argsort_inverse[OF assms this(1)] argsort_inverse[OF assms this(2)] \<open>i \<noteq> j\<close>
    show "argsort p ! i \<noteq> argsort p ! j" by auto
  qed
  fix i assume "i \<in> set (argsort p)"
  then obtain j where "j < n" "argsort p ! j = i" using l by (auto simp: in_set_conv_nth)
  with argsort_inverse[OF assms this(1)] show "i < n" by simp
qed

lemma argsort_inverse':
  assumes "is_perm p n" and "i < n"
  shows "argsort p ! (p ! i) = i"
proof -
  have d: "distinct p" and len: "length p = n"
    using assms(1) is_perm_length[OF assms(1)] by (auto simp: is_perm_def)
  have pi: "p ! i < n" by (rule is_perm_nth[OF assms])
  from argsort_inverse[OF assms(1) pi]
  have "argsort p ! (p ! i) < n" "p ! (argsort p ! (p ! i)) = p ! i" by auto
  with nth_eq_iff_index_eq[OF d, of "argsort p ! (p ! i)" i] assms(2) len show ?thesis by simp
qed

lemma list_index_perm:
  assumes "is_perm p n" and "d < n"
  shows "list_index p d = Some (argsort p ! d)"
proof -
  have dp: "distinct p" and len: "length p = n"
    using assms(1) is_perm_length[OF assms(1)] by (auto simp: is_perm_def)
  from argsort_inverse[OF assms] have a: "argsort p ! d < n" "p ! (argsort p ! d) = d" by auto
  from list_index_nth[OF dp, of "argsort p ! d"] a len show ?thesis by simp
qed

lemma list_index_argsort:
  assumes "is_perm p n" and "d < n"
  shows "list_index (argsort p) d = Some (p ! d)"
proof -
  have q: "is_perm (argsort p) n" by (rule argsort_perm[OF assms(1)])
  then have dq: "distinct (argsort p)" and len: "length (argsort p) = n"
    using is_perm_length[OF q] by (auto simp: is_perm_def)
  have pd: "p ! d < n" by (rule is_perm_nth[OF assms])
  from list_index_nth[OF dq, of "p ! d"] pd len argsort_inverse'[OF assms] show ?thesis by simp
qed

lemma map_nth_perm_inverse:
  assumes "is_perm p n" and "length xs = n"
  shows "map (\<lambda>i. map (\<lambda>i. xs ! i) p ! i) (argsort p) = xs"
proof (rule nth_equalityI)
  have len: "length p = n" by (rule is_perm_length[OF assms(1)])
  show "length (map (\<lambda>i. map (\<lambda>i. xs ! i) p ! i) (argsort p)) = length xs"
    using len assms(2) by (simp add: argsort_length)
  fix j assume "j < length (map (\<lambda>i. map (\<lambda>i. xs ! i) p ! i) (argsort p))"
  then have j: "j < n" using len by (simp add: argsort_length)
  from argsort_inverse[OF assms(1) j] have a: "argsort p ! j < n" "p ! (argsort p ! j) = j"
    by auto
  show "map (\<lambda>i. map (\<lambda>i. xs ! i) p ! i) (argsort p) ! j = xs ! j"
    using j a len by (simp add: argsort_length)
qed

lemma transpose_list_roundtrip:
  assumes "is_perm p n" and "length xs = n"
  shows "\<exists>ys. transpose_list xs p = Inr ys \<and> length ys = n
            \<and> transpose_list ys (argsort p) = Inr xs"
proof -
  have len: "length p = n" by (rule is_perm_length[OF assms(1)])
  have 1: "transpose_list xs p = Inr (map (\<lambda>i. xs ! i) p)"
    using assms by (auto simp: transpose_list_def is_perm_def)
  have q: "is_perm (argsort p) n" by (rule argsort_perm[OF assms(1)])
  have 2: "transpose_list (map (\<lambda>i. xs ! i) p) (argsort p) = Inr xs"
    using q len map_nth_perm_inverse[OF assms]
    by (auto simp: transpose_list_def is_perm_def)
  from 1 2 len show ?thesis by simp
qed

section \<open>The loop of the handlers manager\<close>

lemma update_fresh: "k \<notin> fst ` set al \<Longrightarrow> AList.update k v al = al @ [(k, v)]"
  by (induction al) auto

lemma get_handler_loop_all_rejected:
  assumes "\<forall>(v, c)\<in>set items. rejection slm st cache md c \<noteq> None"
    and "distinct (map fst items)"
    and "fst ` set items \<inter> fst ` set errors = {}"
  shows "get_handler_loop slm items st cache md errors
     = Inl (NoKnownVersion
             (errors @ map (\<lambda>(v, c). (v, the (rejection slm st cache md c))) items))"
  using assms
proof (induction items arbitrary: errors)
  case Nil
  then show ?case by simp
next
  case (Cons vc items)
  obtain v c where vc: "vc = (v, c)" by (cases vc)
  from Cons.prems(1) vc obtain e where e: "rejection slm st cache md c = Some e" by auto
  then obtain h where h: "c st cache md = Inr h" "slm h = ValidationError e"
    by (auto simp: rejection_def split: sum.splits loaded.splits)
  from Cons.prems(3) vc have fresh: "v \<notin> fst ` set errors" by auto
  have u: "AList.update v e errors = errors @ [(v, e)]" by (rule update_fresh[OF fresh])
  have 1: "\<forall>(v, c)\<in>set items. rejection slm st cache md c \<noteq> None"
    using Cons.prems(1) by simp
  have 2: "distinct (map fst items)" using Cons.prems(2) by simp
  have 3: "fst ` set items \<inter> fst ` set (errors @ [(v, e)]) = {}"
    using Cons.prems(2,3) vc by auto
  from Cons.IH[OF 1 2 3] show ?case
    by (simp add: vc h u e)
qed

lemma get_handler_loop_first:
  assumes "\<forall>(v, c)\<in>set pre. rejection slm st cache md c \<noteq> None"
    and "c st cache md = Inr h" and "slm h = Meta m"
  shows "get_handler_loop slm (pre @ (v, c) # post) st cache md errors = Inr h"
  using assms(1)
proof (induction pre arbitrary: errors)
  case Nil
  then show ?case by (simp add: assms(2,3))
next
  case (Cons vc pre)
  obtain v' c' where vc: "vc = (v', c')" by (cases vc)
  from Cons.prems vc obtain e where "rejection slm st cache md c' = Some e" by auto
  then obtain h' where h: "c' st cache md = Inr h'" "slm h' = ValidationError e"
    by (auto simp: rejection_def split: sum.splits loaded.splits)
  have "\<forall>(v, c)\<in>set pre. rejection slm st cache md c \<noteq> None" using Cons.prems by simp
  from Cons.IH[OF this] show ?case by (simp add: vc h)
qed


lemma example_rev: "rev example_registry
     = [(''0.5'', example_class ''0.5'')] @ (''0.4'', example_class ''0.4'') # []"
  by (simp add: example_registry_def)


section \<open>Round trips of the array operations\<close>

lemma in_bounds_length: "in_bounds idx shp \<Longrightarrow> length idx = length shp"
  by (simp add: in_bounds_def list_all2_lengthD)

lemma in_bounds_nth: "in_bounds idx shp \<Longrightarrow> k < length shp \<Longrightarrow> idx ! k < shp ! k"
  by (simp add: in_bounds_def list_all2_nthD2)

lemma np_transpose_roundtrip:
  assumes p: "is_perm p n" and n: "length (shape a) = n" and wf: "wf_ndarray a"
  shows "\<exists>b. np_transpose a p = Inr b \<and> wf_ndarray b \<and> length (shape b) = n
            \<and> np_transpose b (argsort p) = Inr a"
proof -
  let ?q = "argsort p"
  let ?shp = "map (\<lambda>ax. shape a ! ax) p"
  let ?f = "\<lambda>idx. if in_bounds idx ?shp
                   then item a (map (\<lambda>d. case list_index p d of None \<Rightarrow> 0 | Some k \<Rightarrow> idx ! k)
                                 [0..<n])
                   else None"
  let ?b = "\<lparr>shape = ?shp, item = ?f\<rparr>"
  have len: "length p = n" by (rule is_perm_length[OF p])
  have q: "is_perm ?q n" by (rule argsort_perm[OF p])
  have lenq: "length ?q = n" by (rule is_perm_length[OF q])
  have 1: "np_transpose a p = Inr ?b"
    using p len n by (auto simp: np_transpose_def is_perm_def Let_def)
  have 2: "wf_ndarray ?b" by (simp add: wf_ndarray_def)
  have 3: "length (shape ?b) = n" using len by simp
  have shp: "map (\<lambda>ax. ?shp ! ax) ?q = shape a"
    by (rule map_nth_perm_inverse[OF p n])
  have it: "(\<lambda>idx. if in_bounds idx (shape a)
                   then ?f (map (\<lambda>d. case list_index ?q d of None \<Rightarrow> 0 | Some k \<Rightarrow> idx ! k)
                              [0..<n])
                   else None) = item a"
  proof (rule ext)
    fix idx
    show "(if in_bounds idx (shape a)
           then ?f (map (\<lambda>d. case list_index ?q d of None \<Rightarrow> 0 | Some k \<Rightarrow> idx ! k) [0..<n])
           else None) = item a idx"
    proof (cases "in_bounds idx (shape a)")
      case False
      with wf show ?thesis by (simp add: wf_ndarray_def)
    next
      case True
      have li: "length idx = n" using in_bounds_length[OF True] n by simp
      let ?idx' = "map (\<lambda>d. case list_index ?q d of None \<Rightarrow> 0 | Some k \<Rightarrow> idx ! k) [0..<n]"
      have e1: "?idx' = map (\<lambda>d. idx ! (p ! d)) [0..<n]"
        by (rule map_cong[OF refl]) (simp add: list_index_argsort[OF p])
      have ib: "in_bounds ?idx' ?shp"
        unfolding e1 in_bounds_def
      proof (rule list_all2_all_nthI)
        show "length (map (\<lambda>d. idx ! (p ! d)) [0..<n]) = length ?shp" using len by simp
        fix k assume "k < length (map (\<lambda>d. idx ! (p ! d)) [0..<n])"
        then have k: "k < n" by simp
        then have "p ! k < n" by (rule is_perm_nth[OF p])
        with in_bounds_nth[OF True, of "p ! k"] n k len
        show "map (\<lambda>d. idx ! (p ! d)) [0..<n] ! k < ?shp ! k" by simp
      qed
      have e2: "map (\<lambda>d. case list_index p d of None \<Rightarrow> 0 | Some k \<Rightarrow> ?idx' ! k) [0..<n]
                = map (\<lambda>d. idx ! d) [0..<n]"
      proof (rule map_cong[OF refl])
        fix d assume "d \<in> set [0..<n]"
        then have d: "d < n" by simp
        from argsort_inverse[OF p d] have a: "?q ! d < n" "p ! (?q ! d) = d" by auto
        have "?idx' ! (?q ! d) = idx ! (p ! (?q ! d))"
          unfolding e1 using a(1) by simp
        with a show "(case list_index p d of None \<Rightarrow> 0 | Some k \<Rightarrow> ?idx' ! k) = idx ! d"
          by (simp add: list_index_perm[OF p d])
      qed
      have e3: "map (\<lambda>d. idx ! d) [0..<n] = idx"
        using li map_nth[of idx] by simp
      show ?thesis using True ib by (simp only: if_True e2 e3)
    qed
  qed
  have 4: "np_transpose ?b ?q = Inr a"
  proof -
    have "np_transpose ?b ?q = Inr \<lparr>shape = map (\<lambda>ax. ?shp ! ax) ?q,
             item = (\<lambda>idx. if in_bounds idx (map (\<lambda>ax. ?shp ! ax) ?q)
                   then ?f (map (\<lambda>d. case list_index ?q d of None \<Rightarrow> 0 | Some k \<Rightarrow> idx ! k)
                              [0..<n])
                   else None)\<rparr>"
      using q lenq len by (auto simp: np_transpose_def is_perm_def Let_def)
    also have "\<dots> = Inr a"
      unfolding shp it by simp
    finally show ?thesis .
  qed
  from 1 2 3 4 show ?thesis by blast
qed

lemma np_expand_squeeze_roundtrip:
  assumes wf: "wf_ndarray a" and n: "length (shape a) = length (filter Not bs)"
  shows "\<exists>b. np_expand_dims a (mask_positions 0 bs) = Inr b
            \<and> np_squeeze b (mask_positions 0 bs) = Inr a"
proof -
  let ?ins = "mask_positions 0 bs"
  let ?shp = "interleave bs 1 (shape a)"
  let ?f = "\<lambda>idx. if in_bounds idx ?shp then item a (drop_positions ?ins 0 idx) else None"
  let ?b = "\<lparr>shape = ?shp, item = ?f\<rparr>"
  have ag: "agrees ?ins 0 bs" by (rule agrees_mask_positions)
  have out: "length ?ins + length (shape a) = length bs"
    using n length_mask_split[of bs] by (simp add: mask_positions_length)
  have lt: "\<forall>ax\<in>set ?ins. ax < length bs" by (simp add: mask_positions_mem)
  have fs: "fill_positions ?ins 1 0 (length bs) (shape a) = ?shp"
    by (rule fill_positions_interleave[OF ag n])
  have 1: "np_expand_dims a ?ins = Inr ?b"
    unfolding np_expand_dims_def Let_def out fs
    by (auto simp: mask_positions_distinct mask_positions_mem)
  have ls: "length ?shp = length bs" by (rule interleave_length[OF n])
  have one: "\<forall>ax\<in>set ?ins. ?shp ! ax = 1"
    using interleave_nth_True[OF n] by (simp add: mask_positions_mem)
  have ds: "drop_positions ?ins 0 ?shp = shape a"
    by (rule drop_positions_interleave[OF ag n])
  have it: "(\<lambda>idx. if in_bounds idx (shape a)
                   then ?f (fill_positions ?ins 0 0 (length bs) idx) else None) = item a"
  proof (rule ext)
    fix idx
    show "(if in_bounds idx (shape a)
           then ?f (fill_positions ?ins 0 0 (length bs) idx) else None) = item a idx"
    proof (cases "in_bounds idx (shape a)")
      case False
      with wf show ?thesis by (simp add: wf_ndarray_def)
    next
      case True
      have li: "length idx = length (filter Not bs)" using in_bounds_length[OF True] n by simp
      have f: "fill_positions ?ins 0 0 (length bs) idx = interleave bs 0 idx"
        by (rule fill_positions_interleave[OF ag li])
      have ib: "in_bounds (interleave bs 0 idx) ?shp"
        unfolding in_bounds_def
        by (rule interleave_all2[OF True[unfolded in_bounds_def] _ li]) simp
      have d: "drop_positions ?ins 0 (interleave bs 0 idx) = idx"
        by (rule drop_positions_interleave[OF ag li])
      show ?thesis using True ib by (simp only: if_True f d)
    qed
  qed
  have 2: "np_squeeze ?b ?ins = Inr a"
  proof -
    have c: "\<not> (\<not> distinct ?ins \<or> (\<exists>ax\<in>set ?ins. length bs \<le> ax)
                \<or> (\<exists>ax\<in>set ?ins. ?shp ! ax \<noteq> 1))"
      using lt one by (simp add: mask_positions_distinct not_le)
    have "np_squeeze ?b ?ins = Inr \<lparr>shape = drop_positions ?ins 0 ?shp,
             item = (\<lambda>idx. if in_bounds idx (drop_positions ?ins 0 ?shp)
                   then ?f (fill_positions ?ins 0 0 (length bs) idx) else None)\<rparr>"
      unfolding np_squeeze_def Let_def ndarray.simps ls using c by (simp only: if_False)
    also have "\<dots> = Inr a" unfolding ds it by simp
    finally show ?thesis .
  qed
  from 1 2 show ?thesis by blast
qed

section \<open>Handlers and wells of a plate\<close>

lemma derive_handler_existing:
  assumes "handler_ok gh" and "h (child_path (group gh) path) = Some a"
  shows "derive_handler gh path h = (Inr (derived gh path), h)"
proof -
  let ?g = "\<lparr>group_path = child_path (group gh) path, read_only = read_only (group gh),
            group_store = group_store (group gh)\<rparr>"
  let ?g' = "\<lparr>group_path = child_path (group gh) path,
             read_only = (read_only (group gh) \<or> mode gh = ''r''),
             group_store = group_store (group gh)\<rparr>"
  let ?s = "case group_store (group gh) of DirectoryStore p \<Rightarrow> PathStore p | _ \<Rightarrow> OtherStore"
  have g: "get_group gh path True h = (Inr ?g, h)"
    using assms(2) by (simp add: get_group_def Let_def)
  have c: "check_group ?g (mode gh) = Inr ?g'"
    using assms(1) by (auto simp: check_group_def handler_ok_def)
  have o: "open_group_wrapper ?g (mode gh) = Inr (?g', ?s)"
    using assms(1) unfolding open_group_wrapper_def c handler_ok_def
    by (cases "group_store (group gh)") auto
  have i: "ZarrGroupHandler_init (Inr (?g', ?s)) (use_cache gh) (mode gh) (parallel_safe gh)
             = Inr (derived gh path)"
    using assms(1) unfolding handler_ok_def ZarrGroupHandler_init_def derived_def
    by (cases "group_store (group gh)") auto
  show ?thesis
    unfolding derive_handler_def g by (simp only: o i prod.case sum.case)
qed


lemma well_path_nonempty: "well_path w \<noteq> []"
  by (simp add: well_path_def)

lemma child_path_neq: "path \<noteq> [] \<Longrightarrow> child_path g path \<noteq> group_path g"
  by (auto simp: child_path_def)

lemma find_is_well: "find (is_well row column) ws = Some w \<Longrightarrow> is_well row column w \<and> w \<in> set ws"
  by (auto simp: find_Some_iff)

lemma OmeZarrPlate_init_Inr:
  "OmeZarrPlate_init gh h = Inr self \<Longrightarrow>
     plate_group_handler self = gh \<and> plate_meta_handler self = gh"
  by (auto simp: OmeZarrPlate_init_def split: sum.splits)

lemma get_well_existing:
  assumes ok: "handler_ok gh"
    and init: "OmeZarrPlate_init gh h0 = Inr self"
    and pm: "h (group_path (group gh)) = Some (PlateAttrs pm)"
    and w: "find (is_well row column) (wells pm) = Some w"
    and wm: "h (child_path (group gh) (well_path w)) = Some (WellAttrs wm)"
  shows "get_well self row column h
     = (Inr \<lparr>well_group_handler = derived gh (well_path w),
             well_meta_handler = derived gh (well_path w)\<rparr>, h)"
proof -
  note s = OmeZarrPlate_init_Inr[OF init]
  have 1: "plate_meta gh h = Inr pm" using pm by (simp add: plate_meta_def load_attrs_def)
  have 2: "get_well_path pm row column = Inr (well_path w)" using w by (simp add: get_well_path_def)
  have 3: "derive_handler gh (well_path w) h = (Inr (derived gh (well_path w)), h)"
    by (rule derive_handler_existing[where h = h, OF ok wm])
  have 4: "well_meta (derived gh (well_path w)) h = Inr wm"
    using wm by (simp add: well_meta_def load_attrs_def derived_def)
  show ?thesis
    by (simp add: get_well_def s 1 2 3 find_well_meta_handler_def 4)
qed

lemma unlocked_handler_ok: "handler_ok unlocked_handler"
  by (simp add: handler_ok_def unlocked_handler_def example_group_def)

lemma locked_handler_ok: "handler_ok locked_handler"
  by (simp add: handler_ok_def locked_handler_def example_group_def)

lemma unlocked_plate_init:
  "OmeZarrPlate_init unlocked_handler one_image_hierarchy = Inr unlocked_plate"
  by (simp add: OmeZarrPlate_init_def plate_meta_def load_attrs_def unlocked_handler_def
        one_image_hierarchy_def unlocked_plate_def example_group_def)

lemma locked_plate_init:
  "OmeZarrPlate_init locked_handler one_image_hierarchy = Inr locked_plate"
  by (simp add: OmeZarrPlate_init_def plate_meta_def load_attrs_def locked_handler_def
        one_image_hierarchy_def locked_plate_def example_group_def)

lemma phase_lock_False: "phase_lock enter False gh held = Inr held"
  by (simp add: phase_lock_def)

lemma phase_lock_True:
  "lock gh = Inr p \<Longrightarrow> enter held p = Inr () \<Longrightarrow>
     phase_lock enter True gh held = Inr (p # held)"
  by (simp add: phase_lock_def)








text \<open>Removing the last image of a well without the atomic flag, and with it.\<close>

lemma remove_image_impl_plain:
  assumes ok: "handler_ok gh"
    and writable: "\<not> read_only (group gh) \<and> mode gh \<noteq> ''r''"
    and init: "OmeZarrPlate_init gh h = Inr self"
    and pm: "h (group_path (group gh)) = Some (PlateAttrs pm)"
    and w: "find (is_well row column) (wells pm) = Some w"
    and wm: "h (child_path (group gh) (well_path w)) = Some (WellAttrs wm)"
  shows "(path \<notin> set (paths wm None) \<longrightarrow>
           remove_image_impl enter self row column path False h
             = (Inl (NgioValueError ImageNotFound), h))
     \<and> (path \<in> set (paths wm None) \<and> paths (wm\<lparr>images := filter (\<lambda>i. image_path i \<noteq> path) (images wm)\<rparr>) None \<noteq> [] \<longrightarrow>
           remove_image_impl enter self row column path False h
             = (Inr (),
                h(child_path (group gh) (well_path w) \<mapsto>
                    WellAttrs (wm\<lparr>images := filter (\<lambda>i. image_path i \<noteq> path) (images wm)\<rparr>))))
     \<and> (path \<in> set (paths wm None) \<and> paths (wm\<lparr>images := filter (\<lambda>i. image_path i \<noteq> path) (images wm)\<rparr>) None = [] \<longrightarrow>
           remove_image_impl enter self row column path False h
             = (Inr (),
                h(child_path (group gh) (well_path w) \<mapsto>
                    WellAttrs (wm\<lparr>images := filter (\<lambda>i. image_path i \<noteq> path) (images wm)\<rparr>),
                  group_path (group gh) \<mapsto>
                    PlateAttrs (pm\<lparr>wells := filter (\<lambda>w. \<not> is_well row column w) (wells pm)\<rparr>))))"
proof -
  let ?wp = "child_path (group gh) (well_path w)"
  let ?gh' = "derived gh (well_path w)"
  let ?wm' = "wm\<lparr>images := filter (\<lambda>i. image_path i \<noteq> path) (images wm)\<rparr>"
  let ?pm' = "pm\<lparr>wells := filter (\<lambda>w. \<not> is_well row column w) (wells pm)\<rparr>"
  note s = OmeZarrPlate_init_Inr[OF init]
  have g: "get_well self row column h
     = (Inr \<lparr>well_group_handler = ?gh', well_meta_handler = ?gh'\<rparr>, h)"
    by (rule get_well_existing[OF ok init pm w wm])
  have m: "well_meta ?gh' h = Inr wm"
    using wm by (simp add: well_meta_def load_attrs_def derived_def)
  have ne: "?wp \<noteq> group_path (group gh)"
    by (rule child_path_neq[OF well_path_nonempty])
  have wr: "write_well_meta ?gh' m' h = Inr (h(?wp \<mapsto> WellAttrs m'))" for m'
    using writable by (simp add: write_well_meta_def write_attrs_def derived_def)
  have isw: "\<exists>w\<in>set (wells pm). is_well row column w"
    using find_is_well[OF w] by blast
  have rw: "remove_well_impl enter self row column False held (h(?wp \<mapsto> WellAttrs ?wm'))
     = (Inr (), h(?wp \<mapsto> WellAttrs ?wm', group_path (group gh) \<mapsto> PlateAttrs ?pm'))" for held
    using writable isw ne pm
    by (simp add: remove_well_impl_def s phase_lock_False plate_meta_def load_attrs_def
          remove_well_def write_plate_meta_def write_attrs_def)
  have 1: "path \<notin> set (paths wm None) \<longrightarrow>
           remove_image_impl enter self row column path False h
             = (Inl (NgioValueError ImageNotFound), h)"
    by (simp add: remove_image_impl_def g phase_lock_False m remove_image_def paths_def)
  have 2: "path \<in> set (paths wm None) \<and> paths ?wm' None \<noteq> [] \<longrightarrow>
           remove_image_impl enter self row column path False h
             = (Inr (), h(?wp \<mapsto> WellAttrs ?wm'))"
    by (simp add: remove_image_impl_def g phase_lock_False m remove_image_def wr)
       (simp add: paths_def)
  have 3: "path \<in> set (paths wm None) \<and> paths ?wm' None = [] \<longrightarrow>
           remove_image_impl enter self row column path False h
             = (Inr (), h(?wp \<mapsto> WellAttrs ?wm', group_path (group gh) \<mapsto> PlateAttrs ?pm'))"
    by (simp add: remove_image_impl_def g phase_lock_False m remove_image_def wr rw)
       (simp add: paths_def)
  from 1 2 3 show ?thesis by blast
qed

lemma remove_image_impl_atomic_timeout:
  assumes ok: "handler_ok gh"
    and writable: "\<not> read_only (group gh) \<and> mode gh \<noteq> ''r''"
    and ps: "parallel_safe gh"
    and ds: "group_store (group gh) = DirectoryStore p"
    and lp: "lock_path gh = Some (p @ ''.lock'')"
    and init: "OmeZarrPlate_init gh h = Inr self"
    and pm: "h (group_path (group gh)) = Some (PlateAttrs pm)"
    and w: "find (is_well row column) (wells pm) = Some w"
    and wm: "h (child_path (group gh) (well_path w)) = Some (WellAttrs wm)"
    and last: "path \<in> set (paths wm None)"
       "paths (wm\<lparr>images := filter (\<lambda>i. image_path i \<noteq> path) (images wm)\<rparr>) None = []"
  shows "remove_image_impl FileLock_enter self row column path True h
     = (Inl Timeout,
        h(child_path (group gh) (well_path w) \<mapsto>
            WellAttrs (wm\<lparr>images := filter (\<lambda>i. image_path i \<noteq> path) (images wm)\<rparr>)))"
proof -
  let ?wp = "child_path (group gh) (well_path w)"
  let ?gh' = "derived gh (well_path w)"
  let ?wm' = "wm\<lparr>images := filter (\<lambda>i. image_path i \<noteq> path) (images wm)\<rparr>"
  let ?l = "p @ ''.lock''"
  note s = OmeZarrPlate_init_Inr[OF init]
  have g: "get_well self row column h
     = (Inr \<lparr>well_group_handler = ?gh', well_meta_handler = ?gh'\<rparr>, h)"
    by (rule get_well_existing[OF ok init pm w wm])
  have l1: "phase_lock FileLock_enter True ?gh' [] = Inr [?l]"
    using ps ds by (simp add: phase_lock_def lock_def derived_def FileLock_enter_def)
  have l2: "phase_lock FileLock_enter True gh [?l] = Inl Timeout"
    using lp by (simp add: phase_lock_def lock_def FileLock_enter_def)
  have m: "well_meta ?gh' h = Inr wm"
    using wm by (simp add: well_meta_def load_attrs_def derived_def)
  have wr: "write_well_meta ?gh' ?wm' h = Inr (h(?wp \<mapsto> WellAttrs ?wm'))"
    using writable by (simp add: write_well_meta_def write_attrs_def derived_def)
  have rw: "remove_well_impl FileLock_enter self row column True [?l] h2 = (Inl Timeout, h2)" for h2
    by (simp add: remove_well_impl_def s l2)
  have ri: "remove_image wm path = Inr ?wm'"
    using last(1) by (simp add: remove_image_def paths_def)
  show ?thesis
    using last(2) by (simp add: remove_image_impl_def g l1 m ri wr rw)
qed

subsection \<open>The example plates\<close>



lemma example_handler_fields:
  assumes "gh = unlocked_handler \<or> gh = locked_handler"
  shows "group gh = example_group" "mode gh = ''r+''" "use_cache gh = False"
    "store gh = PathStore ''/data/plate.zarr''"
  using assms by (auto simp: unlocked_handler_def locked_handler_def)


lemma example_group_fields:
  "group_path example_group = []" "read_only example_group = False"
  "group_store example_group = DirectoryStore ''/data/plate.zarr''"
  by (simp_all add: example_group_def)


lemma example_well_lookup:
  assumes gh: "gh = unlocked_handler \<or> gh = locked_handler"
  shows "group_path (group gh) = []"
    "child_path (group gh) (well_path well_A1) = ''A/1''"
    "find (is_well ''A'' ''1'') (wells \<lparr>wells = [well_A1]\<rparr>) = Some well_A1"
    "\<not> read_only (group gh) \<and> mode gh \<noteq> ''r''"
  by (simp_all add: example_handler_fields[OF gh] example_group_fields child_path_def
        well_path_def well_A1_def is_well_def)



section \<open>What \<^verbatim>\<open>_change_order\<close> returns\<close>

lemma change_order_unique_Inr:
  "change_order_unique m names acc = Inr uniq \<Longrightarrow>
     (\<forall>name\<in>set names. name \<in> set (map fst (index_mapping m)))
     \<and> uniq = acc @ List.map_filter (dict_get (name_mapping m)) names
     \<and> (distinct acc \<longrightarrow> distinct uniq)"
proof (induction names arbitrary: acc)
  case Nil
  then show ?case by (simp add: map_filter_simps)
next
  case (Cons name names)
  from Cons.prems have k: "name \<in> set (map fst (index_mapping m))"
    by (auto split: if_splits)
  show ?case
  proof (cases "dict_get (name_mapping m) name")
    case None
    with Cons.prems k have "change_order_unique m names acc = Inr uniq" by simp
    from Cons.IH[OF this] k None show ?thesis by (auto simp: map_filter_simps)
  next
    case (Some u)
    with Cons.prems k have u: "u \<notin> set acc"
      and l: "change_order_unique m names (acc @ [u]) = Inr uniq"
      by (auto split: if_splits)
    from Cons.IH[OF l] k Some u show ?thesis by (auto simp: map_filter_simps)
  qed
qed

lemma change_order_split_eval:
  "(\<forall>name\<in>set names. map_of (index_mapping m) name \<noteq> None) \<Longrightarrow>
     change_order_split m i names indices inserts =
       Inr (indices @ List.map_filter (dict_get (index_mapping m)) names,
            inserts @ mask_positions i (map (\<lambda>name. dict_get (index_mapping m) name = None) names))"
proof (induction names arbitrary: i indices inserts)
  case Nil
  then show ?case by (simp add: map_filter_simps)
next
  case (Cons name names)
  then obtain v where v: "map_of (index_mapping m) name = Some v" by auto
  from Cons.prems have r: "\<forall>name\<in>set names. map_of (index_mapping m) name \<noteq> None" by simp
  show ?case
  proof (cases v)
    case None
    with v show ?thesis by (simp add: Cons.IH[OF r] dict_get_def map_filter_simps)
  next
    case (Some idx)
    with v show ?thesis by (simp add: Cons.IH[OF r] dict_get_def map_filter_simps)
  qed
qed

lemma map_filter_all2:
  "(\<And>x. x \<in> set xs \<Longrightarrow> rel_option R (f x) (g x)) \<Longrightarrow>
     list_all2 R (List.map_filter f xs) (List.map_filter g xs)
     \<and> length (filter Not (map (\<lambda>x. g x = None) xs)) = length (List.map_filter g xs)"
proof (induction xs)
  case Nil
  then show ?case by (simp add: map_filter_simps)
next
  case (Cons x xs)
  have "rel_option R (f x) (g x)" using Cons.prems by simp
  moreover have "list_all2 R (List.map_filter f xs) (List.map_filter g xs)
     \<and> length (filter Not (map (\<lambda>x. g x = None) xs)) = length (List.map_filter g xs)"
    using Cons by simp
  ultimately show ?case
    by (cases "f x"; cases "g x") (auto simp: map_filter_simps)
qed

lemma dict_get_index_mapping:
  assumes "AxesMapper_init axes so allow strict = Inr m"
  shows "rel_option (\<lambda>u i. list_index (map on_disk_name axes) u = Some i)
           (dict_get (name_mapping m) name) (dict_get (index_mapping m) name)"
proof -
  note p = AxesMapper_init_parts[OF assms]
  show ?thesis
  proof (cases "map_of (name_mapping m) name")
    case None
    then show ?thesis
      using index_mapping_map_of[OF p(1), of name] p(2) by (simp add: dict_get_def)
  next
    case (Some v)
    show ?thesis
    proof (cases v)
      case None
      with Some show ?thesis
        using index_mapping_map_of[OF p(1), of name] p(2) by (simp add: dict_get_def)
    next
      case (Some u)
      with \<open>map_of (name_mapping m) name = Some v\<close>
      have nm: "map_of (name_mapping m) name = Some (Some u)" by simp
      then have "u \<in> set (map on_disk_name axes)"
        using name_mapping_values[of "setup_of so" "map on_disk_name axes" name u] p(2) by simp
      then obtain i where i: "list_index (map on_disk_name axes) u = Some i"
        using list_index_None_iff[of "map on_disk_name axes" u]
        by (cases "list_index (map on_disk_name axes) u") auto
      with nm show ?thesis
        using index_mapping_map_of[OF p(1), of name] p(2) by (simp add: dict_get_def)
    qed
  qed
qed

lemma change_order_Inr:
  assumes init: "AxesMapper_init axes so allow strict = Inr m"
    and co: "change_order m names = Inr (p, ins)"
  shows "is_perm p (length axes)
     \<and> (\<exists>bs. ins = mask_positions 0 bs \<and> length (filter Not bs) = length axes)"
proof -
  let ?disk = "map on_disk_name axes"
  let ?n = "length axes"
  note parts = AxesMapper_init_parts[OF init]
  have disk: "on_disk_axes_names m = ?disk"
    using AxesMapper_init_names[OF init] by (simp add: on_disk_axes_names_def)
  have dd: "distinct ?disk"
    using parts(4) unfolding validate_axes_eval by (simp split: if_splits)
  from co obtain uniq where u: "change_order_unique m names [] = Inr uniq"
    and ge: "\<not> length ?disk > length uniq"
    and sp: "change_order_split m 0 names [] [] = Inr (p, ins)"
    by (auto simp: change_order_def disk split: sum.splits if_splits)
  from change_order_unique_Inr[OF u]
  have keys: "\<forall>name\<in>set names. name \<in> set (map fst (index_mapping m))"
    and uq: "uniq = List.map_filter (dict_get (name_mapping m)) names"
    and du: "distinct uniq"
    by auto
  have "\<forall>name\<in>set names. map_of (index_mapping m) name \<noteq> None"
    using keys by (simp add: map_of_eq_None_iff)
  from change_order_split_eval[OF this, of 0 "[]" "[]"] sp
  have pe: "p = List.map_filter (dict_get (index_mapping m)) names"
    and ie: "ins = mask_positions 0 (map (\<lambda>name. dict_get (index_mapping m) name = None) names)"
    by auto
  let ?bs = "map (\<lambda>name. dict_get (index_mapping m) name = None) names"
  from map_filter_all2[of names "\<lambda>u i. list_index ?disk u = Some i"
         "dict_get (name_mapping m)" "dict_get (index_mapping m)"]
       dict_get_index_mapping[OF init]
  have rel: "list_all2 (\<lambda>u i. list_index ?disk u = Some i) uniq p"
    and cnt: "length (filter Not ?bs) = length p"
    unfolding uq pe by auto
  have lp: "length p = length uniq" using list_all2_lengthD[OF rel] by simp
  have nth: "p ! k < ?n \<and> ?disk ! (p ! k) = uniq ! k" if "k < length p" for k
    using list_all2_nthD2[OF rel that] list_index_Some[of ?disk "uniq ! k" "p ! k"] by simp
  have sub: "set uniq \<subseteq> set ?disk"
  proof
    fix x assume "x \<in> set uniq"
    then obtain k where "k < length uniq" "uniq ! k = x" by (auto simp: in_set_conv_nth)
    with nth[of k] lp have "p ! k < length ?disk" "?disk ! (p ! k) = x" by auto
    then show "x \<in> set ?disk" using nth_mem[of "p ! k" ?disk] by simp
  qed
  have "length uniq = card (set uniq)" using du by (simp add: distinct_card)
  also have "\<dots> \<le> card (set ?disk)" by (rule card_mono[OF _ sub]) simp
  also have "\<dots> = length ?disk" by (rule distinct_card[OF dd])
  finally have "length uniq = ?n" using ge by simp
  then have lpn: "length p = ?n" using lp by simp
  have dp: "distinct p"
    unfolding distinct_conv_nth
  proof (intro allI impI)
    fix i j assume ij: "i < length p" "j < length p" "i \<noteq> j"
    show "p ! i \<noteq> p ! j"
    proof
      assume "p ! i = p ! j"
      with nth[OF ij(1)] nth[OF ij(2)] have "uniq ! i = uniq ! j" by simp
      with nth_eq_iff_index_eq[OF du, of i j] ij lp show False by simp
    qed
  qed
  have "is_perm p ?n"
  proof (rule is_permI[OF dp lpn])
    fix i assume "i \<in> set p"
    then obtain k where "k < length p" "p ! k = i" by (auto simp: in_set_conv_nth)
    with nth[of k] show "i < ?n" by simp
  qed
  moreover have "ins = mask_positions 0 ?bs \<and> length (filter Not ?bs) = ?n"
    using ie cnt lpn by simp
  ultimately show ?thesis by blast
qed

section \<open>Round trips of a plan\<close>

lemma change_order_unique_succeeds:
  "(\<forall>name\<in>set names. name \<in> set (map fst (index_mapping m))) \<Longrightarrow>
   distinct (acc @ List.map_filter (dict_get (name_mapping m)) names) \<Longrightarrow>
     change_order_unique m names acc
       = Inr (acc @ List.map_filter (dict_get (name_mapping m)) names)"
proof (induction names arbitrary: acc)
  case Nil
  then show ?case by (simp add: map_filter_simps)
next
  case (Cons name names)
  from Cons.prems(1) have k: "name \<in> set (map fst (index_mapping m))"
    and r: "\<forall>name\<in>set names. name \<in> set (map fst (index_mapping m))"
    by auto
  show ?case
  proof (cases "dict_get (name_mapping m) name")
    case None
    with Cons.prems(2) have "distinct (acc @ List.map_filter (dict_get (name_mapping m)) names)"
      by (simp add: map_filter_simps)
    from Cons.IH[OF r this] k None show ?thesis by (simp add: map_filter_simps)
  next
    case (Some u)
    with Cons.prems(2) have u: "u \<notin> set acc"
      and d: "distinct ((acc @ [u]) @ List.map_filter (dict_get (name_mapping m)) names)"
      by (auto simp: map_filter_simps)
    from Cons.IH[OF r d] k Some u show ?thesis by (simp add: map_filter_simps)
  qed
qed

lemma map_filter_as_filter:
  "(\<And>k. k \<in> set ks \<Longrightarrow> f k = (if P (g k) then Some (g k) else None)) \<Longrightarrow>
     List.map_filter f ks = filter P (map g ks)"
  by (induction ks) (auto simp: map_filter_simps)

lemma to_canonical_succeeds:
  assumes init: "AxesMapper_init axes so allow strict = Inr m"
    and no_others: "others (setup_of so) = []"
    and five: "distinct [setup_t (setup_of so), setup_c (setup_of so), setup_z (setup_of so),
                         setup_y (setup_of so), setup_x (setup_of so)]"
  shows "\<exists>plan. to_canonical m = Inr plan"
proof -
  let ?disk = "map on_disk_name axes"
  let ?nm = "compute_name_mapping (setup_of so) ?disk"
  define names5 where "names5 = [setup_t (setup_of so), setup_c (setup_of so),
      setup_z (setup_of so), setup_y (setup_of so), setup_x (setup_of so)]"
  define g where "g = (\<lambda>k. case map_of (model_dump (setup_of so)) k of Some v \<Rightarrow> v | None \<Rightarrow> k)"
  note parts = AxesMapper_init_parts[OF init]
  have disk: "on_disk_axes_names m = ?disk"
    using AxesMapper_init_names[OF init] by (simp add: on_disk_axes_names_def)
  have ext: "extended_canonical_order m = canonical_axes_order"
    using parts(5) no_others by simp
  have known: "set (map snd (model_dump (setup_of so))) = set names5"
    by (auto simp: model_dump_def names5_def)
  have dd: "distinct ?disk" and sub: "set ?disk \<subseteq> set names5"
    using parts(4) no_others unfolding validate_axes_eval known[symmetric]
    by (auto split: if_splits)
  have mg: "map g canonical_axes_order = names5"
    by (simp add: g_def canonical_axes_order_def model_dump_def names5_def)
  have keys: "\<forall>name\<in>set canonical_axes_order. name \<in> set (map fst (index_mapping m))"
  proof
    fix name assume n: "name \<in> set canonical_axes_order"
    then have "name \<in> set (map fst ?nm)" by (simp only: name_mapping_keys) simp
    then have "map_of ?nm name \<noteq> None" by (simp add: map_of_eq_None_iff)
    then have "map_of (index_mapping m) name \<noteq> None"
      by (simp add: index_mapping_map_of[OF parts(1)])
    then show "name \<in> set (map fst (index_mapping m))" by (simp add: map_of_eq_None_iff)
  qed
  have dg: "dict_get (name_mapping m) k = (if g k \<in> set ?disk then Some (g k) else None)"
    if "k \<in> set canonical_axes_order" for k
    using that unfolding parts(2) dict_get_def name_mapping_map_of g_def
    by (auto simp: canonical_axes_order_def model_dump_def)
  have uq: "List.map_filter (dict_get (name_mapping m)) canonical_axes_order
              = filter (\<lambda>v. v \<in> set ?disk) names5"
    using map_filter_as_filter[of canonical_axes_order "dict_get (name_mapping m)"
            "\<lambda>v. v \<in> set ?disk" g] dg
    by (simp only: mg)
  have d5: "distinct names5" using five by (simp only: names5_def)
  have du: "distinct ([] @ List.map_filter (dict_get (name_mapping m)) canonical_axes_order)"
    unfolding uq using d5 by simp
  have u: "change_order_unique m canonical_axes_order []
             = Inr (filter (\<lambda>v. v \<in> set ?disk) names5)"
    using change_order_unique_succeeds[OF keys du] by (simp only: uq append_Nil)
  have "set ?disk \<subseteq> set (filter (\<lambda>v. v \<in> set ?disk) names5)" using sub by auto
  then have "card (set ?disk) \<le> card (set (filter (\<lambda>v. v \<in> set ?disk) names5))"
    by (intro card_mono) simp_all
  also have "\<dots> \<le> length (filter (\<lambda>v. v \<in> set ?disk) names5)" by (rule card_length)
  finally have le: "length ?disk \<le> length (filter (\<lambda>v. v \<in> set ?disk) names5)"
    using distinct_card[OF dd] by simp
  have "\<forall>name\<in>set canonical_axes_order. map_of (index_mapping m) name \<noteq> None"
    using keys by (simp add: map_of_eq_None_iff)
  from change_order_split_eval[OF this, of 0 "[]" "[]"]
  obtain p ins where "change_order_split m 0 canonical_axes_order [] [] = Inr (p, ins)"
    by blast
  with u le have "change_order m canonical_axes_order = Inr (p, ins)"
    by (simp add: change_order_def disk)
  then show ?thesis by (simp add: to_canonical_def to_order_def ext)
qed

lemma transform_list_roundtrip:
  assumes p: "is_perm p n" and bs: "length (filter Not bs) = n" and xs: "length xs = n"
  shows "\<exists>ys. transform_list xs d [AxesTranspose p, AxesExpand (mask_positions 0 bs)] = Inr ys
     \<and> transform_list ys d [AxesSqueeze (mask_positions 0 bs), AxesTranspose (argsort p)] = Inr xs"
proof -
  from transpose_list_roundtrip[OF p xs] obtain ys where
    t: "transpose_list xs p = Inr ys" and l: "length ys = n"
    and b: "transpose_list ys (argsort p) = Inr xs"
    by blast
  have l': "length ys = length (filter Not bs)" using l bs by simp
  have e: "expand_list ys d (mask_positions 0 bs) = interleave bs d ys"
    using expand_list_interleave[of "[]" 0 ys bs d] l' by simp
  have s: "squeeze_list (interleave bs d ys) 0 (mask_positions 0 bs) = Inr ys"
    using squeeze_list_interleave[of "[]" 0 0 ys bs d] l' by simp
  have "transform_list xs d [AxesTranspose p, AxesExpand (mask_positions 0 bs)]
          = Inr (interleave bs d ys)"
    by (simp add: t e)
  moreover have "transform_list (interleave bs d ys) d
          [AxesSqueeze (mask_positions 0 bs), AxesTranspose (argsort p)] = Inr xs"
    by (simp add: s b)
  ultimately show ?thesis by blast
qed

lemma transform_array_roundtrip:
  assumes p: "is_perm p n" and bs: "length (filter Not bs) = n"
    and a: "length (shape a) = n" and wf: "wf_ndarray a"
  shows "\<exists>b. transform_array a [AxesTranspose p, AxesExpand (mask_positions 0 bs)] = Inr b
     \<and> transform_array b [AxesSqueeze (mask_positions 0 bs), AxesTranspose (argsort p)] = Inr a"
proof -
  from np_transpose_roundtrip[OF p a wf] obtain a1 where
    t: "np_transpose a p = Inr a1" and wf1: "wf_ndarray a1" and l1: "length (shape a1) = n"
    and b: "np_transpose a1 (argsort p) = Inr a"
    by blast
  have "length (shape a1) = length (filter Not bs)" using l1 bs by simp
  from np_expand_squeeze_roundtrip[OF wf1 this] obtain a2 where
    e: "np_expand_dims a1 (mask_positions 0 bs) = Inr a2"
    and s: "np_squeeze a2 (mask_positions 0 bs) = Inr a1"
    by blast
  have "transform_array a [AxesTranspose p, AxesExpand (mask_positions 0 bs)] = Inr a2"
    by (simp add: t e)
  moreover have "transform_array a2
          [AxesSqueeze (mask_positions 0 bs), AxesTranspose (argsort p)] = Inr a"
    by (simp add: s b)
  ultimately show ?thesis by blast
qed

lemma others_mapper_init:
  "AxesMapper_init others_axes (Some others_setup) True False = Inr others_mapper"
  by code_simp

lemma example_mapper_to_canonical: "to_canonical example_mapper = Inr example_plan"
  by code_simp

lemma example_array_wf: "wf_ndarray example_array"
  by (simp add: wf_ndarray_def example_array_def)


section \<open>The claims about the axes mapper\<close>

lemma example_mapper_init: "AxesMapper_init example_axes None False False = Inr example_mapper"
  by code_simp

text \<open>
  Claim C10. Constructing an \<^verbatim>\<open>AxesMapper\<close> keeps the length, the order and the
  \<^verbatim>\<open>on_disk_name\<close> of the on-disk axes: after a successful construction
  \<^verbatim>\<open>on_disk_axes_names\<close> is the list of names of the axes the mapper was built from, in the
  same order. The cast of \<^verbatim>\<open>validate_axex_type\<close> changes \<^verbatim>\<open>axis_type\<close> and \<^verbatim>\<open>unit\<close> only.
\<close>

theorem AxesMapper_init_preserves_names:
  assumes "AxesMapper_init axes so allow strict = Inr m"
  shows "on_disk_axes_names m = map on_disk_name axes \<and> length (on_disk_axes m) = length axes"
proof -
  have n: "map on_disk_name (on_disk_axes m) = map on_disk_name axes"
    by (rule AxesMapper_init_names[OF assms])
  have "length (on_disk_axes m) = length axes"
    using map_eq_imp_length_eq[OF n] .
  with n show ?thesis by (simp add: on_disk_axes_names_def)
qed

theorem AxesMapper_init_preserves_names_witness:
  "AxesMapper_init example_axes None False False = Inr example_mapper
   \<and> on_disk_axes_names example_mapper = [''y'', ''x'', ''c'']
   \<and> length (on_disk_axes example_mapper) = 3"
  using AxesMapper_init_preserves_names[OF example_mapper_init] example_mapper_init
  by (simp add: example_axes_def)

text \<open>
  Claim C7. For a constructed mapper and a recognised name \<open>n\<close> whose index is present, the
  axis at position \<^verbatim>\<open>get_index(n)\<close> of the on-disk axes is the axis \<^verbatim>\<open>get_axis(n)\<close> returns (so
  both have the same \<^verbatim>\<open>on_disk_name\<close>), and the index is in range. \<^verbatim>\<open>get_index\<close> of a name that
  is no key of the mapping (that is, neither a canonical key nor an on-disk name) raises the
  invalid-name \<^verbatim>\<open>NgioValueError\<close>; a canonical key whose configured on-disk name is not on disk
  yields \<^verbatim>\<open>None\<close> from \<^verbatim>\<open>get_index\<close> and from \<^verbatim>\<open>get_axis\<close>, not an error.
\<close>

theorem get_index_get_axis_consistent:
  assumes "AxesMapper_init axes so allow strict = Inr m"
  shows "(get_index m n = Inr (Some i) \<longrightarrow>
            i < length (on_disk_axes m)
            \<and> (\<exists>a. get_axis m n = Inr (Some a)
                   \<and> on_disk_name (on_disk_axes m ! i) = on_disk_name a))
       \<and> (n \<notin> set (map fst (index_mapping m)) \<longrightarrow>
            get_index m n = Inl (NgioValueError InvalidAxisName))
       \<and> (n \<notin> set canonical_axes_order \<and> n \<notin> set (map on_disk_name axes) \<longrightarrow>
            get_index m n = Inl (NgioValueError InvalidAxisName))
       \<and> (\<forall>v. map_of (model_dump (setup_of so)) n = Some v \<and> v \<notin> set (map on_disk_name axes) \<longrightarrow>
            get_index m n = Inr None \<and> get_axis m n = Inr None)"
proof -
  let ?names = "map on_disk_name axes"
  let ?nm = "compute_name_mapping (setup_of so) ?names"
  note p = AxesMapper_init_parts[OF assms]
  note gi = get_index_built[OF p(1) refl]
  note ga = get_axis_built[OF p(1) refl p(3)]
  have 1: "get_index m n = Inr (Some i) \<longrightarrow>
            i < length (on_disk_axes m)
            \<and> (\<exists>a. get_axis m n = Inr (Some a)
                   \<and> on_disk_name (on_disk_axes m ! i) = on_disk_name a)"
  proof
    assume g: "get_index m n = Inr (Some i)"
    then have "map_of (index_mapping m) n = Some (Some i)"
      by (auto simp: get_index_def split: if_splits option.splits)
    from index_mapping_bound[OF p(1) this] have "i < length (on_disk_axes m)"
      by (simp add: p(3))
    then show "i < length (on_disk_axes m)
            \<and> (\<exists>a. get_axis m n = Inr (Some a)
                   \<and> on_disk_name (on_disk_axes m ! i) = on_disk_name a)"
      using g by (simp add: get_axis_def)
  qed
  have 2: "n \<notin> set (map fst (index_mapping m)) \<longrightarrow>
            get_index m n = Inl (NgioValueError InvalidAxisName)"
    by (simp add: get_index_def)
  have 3: "n \<notin> set canonical_axes_order \<and> n \<notin> set ?names \<longrightarrow>
            get_index m n = Inl (NgioValueError InvalidAxisName)"
  proof
    assume "n \<notin> set canonical_axes_order \<and> n \<notin> set ?names"
    then have "n \<notin> set (map fst ?nm)" by (simp only: name_mapping_keys) simp
    then have "map_of ?nm n = None" by (simp add: map_of_eq_None_iff)
    then show "get_index m n = Inl (NgioValueError InvalidAxisName)" by (simp add: gi)
  qed
  have 4: "\<forall>v. map_of (model_dump (setup_of so)) n = Some v \<and> v \<notin> set ?names \<longrightarrow>
            get_index m n = Inr None \<and> get_axis m n = Inr None"
    by (simp add: gi ga name_mapping_map_of)
  from 1 2 3 4 show ?thesis by blast
qed

theorem get_index_get_axis_consistent_witness:
  "get_index example_mapper ''y'' = Inr (Some 0)
   \<and> get_axis example_mapper ''y''
       = Inr (Some \<lparr>on_disk_name = ''y'', unit = Some (Space um_unit), axis_type = Some space\<rparr>)
   \<and> get_index example_mapper ''w'' = Inl (NgioValueError InvalidAxisName)
   \<and> get_index example_mapper ''t'' = Inr None
   \<and> get_axis example_mapper ''t'' = Inr None"
proof -
  have a: "get_index example_mapper ''y'' = Inr (Some 0)" by code_simp
  have b: "''w'' \<notin> set canonical_axes_order \<and> ''w'' \<notin> set (map on_disk_name example_axes)"
    by code_simp
  have c: "map_of (model_dump (setup_of None)) ''t'' = Some ''t''
           \<and> ''t'' \<notin> set (map on_disk_name example_axes)"
    by code_simp
  have d: "on_disk_axes example_mapper ! 0
     = \<lparr>on_disk_name = ''y'', unit = Some (Space um_unit), axis_type = Some space\<rparr>"
    by (simp add: example_mapper_def)
  from get_index_get_axis_consistent[OF example_mapper_init, of "''y''" 0] a
  have 1: "get_axis example_mapper ''y''
       = Inr (Some \<lparr>on_disk_name = ''y'', unit = Some (Space um_unit), axis_type = Some space\<rparr>)"
    using d by (auto simp: get_axis_def)
  from get_index_get_axis_consistent[OF example_mapper_init, of "''w''" 0] b
  have 2: "get_index example_mapper ''w'' = Inl (NgioValueError InvalidAxisName)"
    by blast
  from get_index_get_axis_consistent[OF example_mapper_init, of "''t''" 0] c
  have 3: "get_index example_mapper ''t'' = Inr None \<and> get_axis example_mapper ''t'' = Inr None"
    by blast
  from a 1 2 3 show ?thesis by blast
qed

text \<open>
  Claim C5. Constructing an \<^verbatim>\<open>AxesMapper\<close> fails exactly when one of five conditions
  holds, and then with a \<^verbatim>\<open>NgioValidationError\<close>: the on-disk names are not pairwise
  distinct; \<^verbatim>\<open>others\<close> is not empty while non-canonical axes are not allowed; some on-disk name
  is neither one of the five names the setup gives to \<^verbatim>\<open>x, y, z, c, t\<close> nor in \<^verbatim>\<open>others\<close>;
  \<^verbatim>\<open>strict_canonical_order\<close> is set and the on-disk names differ from the setup's names for
  \<^verbatim>\<open>t, c, z, y, x\<close> (in this order) filtered to those on disk; both flags are set. In
  particular the steps after \<^verbatim>\<open>validate_axes\<close> (the two mappings, the type cast) never raise.
\<close>

theorem AxesMapper_init_fails_iff:
  "((\<exists>e. AxesMapper_init axes so allow strict = Inl e) \<longleftrightarrow>
      \<not> distinct (map on_disk_name axes)
      \<or> (others (setup_of so) \<noteq> [] \<and> \<not> allow)
      \<or> (\<exists>a\<in>set axes. on_disk_name a \<notin>
            {setup_x (setup_of so), setup_y (setup_of so), setup_z (setup_of so),
             setup_c (setup_of so), setup_t (setup_of so)} \<union> set (others (setup_of so)))
      \<or> (strict \<and> map on_disk_name axes \<noteq>
            filter (\<lambda>v. v \<in> set (map on_disk_name axes))
              [setup_t (setup_of so), setup_c (setup_of so), setup_z (setup_of so),
               setup_y (setup_of so), setup_x (setup_of so)])
      \<or> (allow \<and> strict))
   \<and> (\<forall>e. AxesMapper_init axes so allow strict = Inl e \<longrightarrow> (\<exists>msg. e = NgioValidationError msg))"
proof -
  define co where "co = filter (\<lambda>v. v \<in> set (map on_disk_name axes))
              [setup_t (setup_of so), setup_c (setup_of so), setup_z (setup_of so),
               setup_y (setup_of so), setup_x (setup_of so)]"
  define known where "known = {setup_x (setup_of so), setup_y (setup_of so), setup_z (setup_of so),
             setup_c (setup_of so), setup_t (setup_of so)}"
  have k: "set (map snd (model_dump (setup_of so))) = known"
    by (simp add: model_dump_def known_def)
  have c: "canonical_order_loop (setup_of so) (map on_disk_name axes) canonical_axes_order []
             = Inr co"
    unfolding co_def by (rule canonical_order_loop_eval)
  note ev = validate_axes_eval_gen[OF c, of allow strict, unfolded k]
  have i: "(\<exists>e. AxesMapper_init axes so allow strict = Inl e)
        \<longleftrightarrow> (\<exists>e. validate_axes axes (setup_of so) allow strict = Inl e)"
  proof
    assume "\<exists>e. AxesMapper_init axes so allow strict = Inl e"
    then show "\<exists>e. validate_axes axes (setup_of so) allow strict = Inl e"
      using AxesMapper_init_Inl by blast
  next
    assume "\<exists>e. validate_axes axes (setup_of so) allow strict = Inl e"
    then show "\<exists>e. AxesMapper_init axes so allow strict = Inl e"
      by (auto simp: AxesMapper_init_def setup_of_def Let_def)
  qed
  have ii: "(\<exists>e. validate_axes axes (setup_of so) allow strict = Inl e) \<longleftrightarrow>
      \<not> distinct (map on_disk_name axes)
      \<or> (others (setup_of so) \<noteq> [] \<and> \<not> allow)
      \<or> (\<exists>a\<in>set axes. on_disk_name a \<notin> known \<union> set (others (setup_of so)))
      \<or> (strict \<and> map on_disk_name axes \<noteq> co)
      \<or> (allow \<and> strict)"
    unfolding ev by auto
  have iii: "\<forall>e. AxesMapper_init axes so allow strict = Inl e \<longrightarrow> (\<exists>msg. e = NgioValidationError msg)"
  proof (intro allI impI)
    fix e assume "AxesMapper_init axes so allow strict = Inl e"
    from AxesMapper_init_Inl[OF this] show "\<exists>msg. e = NgioValidationError msg"
      unfolding ev by (auto split: if_splits)
  qed
  from i ii iii show ?thesis unfolding co_def known_def by blast
qed


theorem AxesMapper_init_fails_iff_witness:
  "(\<exists>e. AxesMapper_init duplicate_axes None False False = Inl e)
   \<and> (\<exists>e. AxesMapper_init example_axes None False True = Inl e)
   \<and> \<not> (\<exists>e. AxesMapper_init example_axes None False False = Inl e)"
proof -
  have 1: "\<exists>e. AxesMapper_init duplicate_axes None False False = Inl e"
    using AxesMapper_init_fails_iff[of duplicate_axes None False False]
    by (simp add: duplicate_axes_def)
  have 2: "\<exists>e. AxesMapper_init example_axes None False True = Inl e"
    using AxesMapper_init_fails_iff[of example_axes None False True]
    by (simp add: example_axes_def setup_of_def AxesSetup_default_def)
  have 3: "\<not> (\<exists>e. AxesMapper_init example_axes None False False = Inl e)"
    using AxesMapper_init_fails_iff[of example_axes None False False]
    by (simp add: example_axes_def setup_of_def AxesSetup_default_def)
  from 1 2 3 show ?thesis by blast
qed

text \<open>
  Claim C6, as amended. In a constructed mapper, the on-disk axis at index \<open>i\<close> whose first
  canonical key, in the order \<^verbatim>\<open>t, c, z, y, x\<close>, is \<open>k\<close> is the \<^verbatim>\<open>canonical_axis_cast\<close> for \<open>k\<close> of
  the axis the mapper was built from: it keeps its name, it has the type and the unit family of
  slot \<open>k\<close>, a \<^verbatim>\<open>t\<close> axis without a time unit gets the default time unit, a \<^verbatim>\<open>c\<close> axis has no
  unit, a \<^verbatim>\<open>z\<close>, \<^verbatim>\<open>y\<close> or \<^verbatim>\<open>x\<close> axis without a space unit gets the default space unit. The
  construction does not fail on a mismatch (claim C5 has the only ways it fails).
\<close>

theorem canonical_slot_type_coercion:
  assumes "AxesMapper_init axes so allow strict = Inr m"
    and "find (\<lambda>k'. get_index m k' = Inr (Some i)) canonical_axes_order = Some k"
  shows "i < length axes
     \<and> get_axis m k = Inr (Some (on_disk_axes m ! i))
     \<and> on_disk_axes m ! i = canonical_axis_cast (axes ! i) k
     \<and> on_disk_name (on_disk_axes m ! i) = on_disk_name (axes ! i)
     \<and> expected_family k (on_disk_axes m ! i)
     \<and> (k = ''t'' \<longrightarrow> unit (on_disk_axes m ! i) =
           (if is_TimeUnits (unit (axes ! i)) then unit (axes ! i)
            else Some (Time TimeUnits_default)))
     \<and> (k = ''c'' \<longrightarrow> unit (on_disk_axes m ! i) = None)
     \<and> (k \<in> {''z'', ''y'', ''x''} \<longrightarrow> unit (on_disk_axes m ! i) =
           (if is_SpaceUnits (unit (axes ! i)) then unit (axes ! i)
            else Some (Space SpaceUnits_default)))"
proof -
  note p = AxesMapper_init_parts[OF assms(1)]
  from assms(2) have k: "k \<in> set canonical_axes_order" and g: "get_index m k = Inr (Some i)"
    by (auto simp: find_Some_iff)
  from g have "map_of (index_mapping m) k = Some (Some i)"
    by (auto simp: get_index_def split: if_splits option.splits)
  from index_mapping_bound[OF p(1) this] have i: "i < length axes" by simp
  then have im: "i < length (on_disk_axes m)" by (simp add: p(3))
  have ga: "get_axis m k = Inr (Some (on_disk_axes m ! i))"
    using g im by (simp add: get_axis_def)
  have e: "on_disk_axes m ! i = canonical_axis_cast (axes ! i) k"
    using AxesMapper_init_nth[OF assms(1) i] assms(2) by simp
  show ?thesis
    unfolding e using i ga[unfolded e] k canonical_axis_cast_family[OF k, of "axes ! i"]
    by (simp add: canonical_axis_cast_name canonical_axis_cast_unit)
qed

text \<open>
  The claim as stated, for every slot an axis occupies, fails when the setup gives one on-disk
  name to two canonical keys: the inner loop of \<^verbatim>\<open>validate_axex_type\<close> stops at the first key
  (\<^verbatim>\<open>break\<close>), so the axis in slot \<^verbatim>\<open>x\<close> below has been cast for slot \<^verbatim>\<open>t\<close>.
\<close>

theorem canonical_slot_type_coercion_counterexample:
  "AxesMapper_init two_slot_axes (Some two_slot_setup) False False = Inr two_slot_mapper
   \<and> get_axis two_slot_mapper ''x''
       = Inr (Some \<lparr>on_disk_name = ''a'', unit = Some (Time s_unit), axis_type = Some time\<rparr>)
   \<and> \<not> expected_family ''x''
         \<lparr>on_disk_name = ''a'', unit = Some (Time s_unit), axis_type = Some time\<rparr>"
  by code_simp

theorem canonical_slot_type_coercion_witness:
  "get_axis example_mapper ''c''
     = Inr (Some \<lparr>on_disk_name = ''c'', unit = None, axis_type = Some channel\<rparr>)
   \<and> on_disk_axes example_mapper ! 2 = canonical_axis_cast (example_axes ! 2) ''c''
   \<and> expected_family ''c'' (on_disk_axes example_mapper ! 2)
   \<and> unit (example_axes ! 2) = Some (Time seconds)
   \<and> unit (on_disk_axes example_mapper ! 2) = None"
proof -
  have f: "find (\<lambda>k'. get_index example_mapper k' = Inr (Some 2)) canonical_axes_order
             = Some ''c''"
    by code_simp
  have n: "on_disk_axes example_mapper ! 2
             = \<lparr>on_disk_name = ''c'', unit = None, axis_type = Some channel\<rparr>"
    by (simp add: example_mapper_def)
  have u: "unit (example_axes ! 2) = Some (Time seconds)"
    by (simp add: example_axes_def)
  note t = canonical_slot_type_coercion[OF example_mapper_init f]
  from t have 1: "get_axis example_mapper ''c'' = Inr (Some (on_disk_axes example_mapper ! 2))"
    by blast
  from t have 2: "on_disk_axes example_mapper ! 2 = canonical_axis_cast (example_axes ! 2) ''c''"
    by blast
  from t have 3: "expected_family ''c'' (on_disk_axes example_mapper ! 2)"
    by blast
  from t have 4: "unit (on_disk_axes example_mapper ! 2) = None"
    by blast
  from 1[unfolded n] 2 3 4 u show ?thesis by blast
qed

text \<open>
  Claim C1, as amended. For a constructed mapper whose \<^verbatim>\<open>to_canonical()\<close> returns a plan,
  \<^verbatim>\<open>from_canonical()\<close> returns a plan too, and applying the first and then the second gives back
  every list of as many elements as there are on-disk axes (whatever the default value) and every
  array of as many dimensions (an array being well-formed when it has elements at the indices
  within its shape only): no step raises and the result is the original. \<^verbatim>\<open>to_canonical()\<close>
  returns a plan at least when \<^verbatim>\<open>others\<close> is empty and the setup gives five different names to
  \<^verbatim>\<open>t, c, z, y, x\<close>.
\<close>

theorem canonical_roundtrip:
  assumes "AxesMapper_init axes so allow strict = Inr m"
  shows "(\<forall>plan. to_canonical m = Inr plan \<longrightarrow>
           (\<exists>inverse_plan. from_canonical m = Inr inverse_plan
              \<and> (\<forall>(xs :: 'a list) d. length xs = length axes \<longrightarrow>
                   (\<exists>ys. transform_list xs d plan = Inr ys
                       \<and> transform_list ys d inverse_plan = Inr xs))
              \<and> (\<forall>a :: 'b ndarray. wf_ndarray a \<and> length (shape a) = length axes \<longrightarrow>
                   (\<exists>b. transform_array a plan = Inr b
                       \<and> transform_array b inverse_plan = Inr a))))
     \<and> (others (setup_of so) = []
          \<and> distinct [setup_t (setup_of so), setup_c (setup_of so), setup_z (setup_of so),
                       setup_y (setup_of so), setup_x (setup_of so)] \<longrightarrow>
           (\<exists>plan. to_canonical m = Inr plan))"
proof (intro conjI allI impI)
  fix plan
  assume tc: "to_canonical m = Inr plan"
  then obtain p ins where
    co: "change_order m (extended_canonical_order m) = Inr (p, ins)"
    and plan: "plan = [AxesTranspose p, AxesExpand ins]"
    by (auto simp: to_canonical_def to_order_def split: sum.splits)
  from change_order_Inr[OF assms co] obtain bs where
    p: "is_perm p (length axes)" and ins: "ins = mask_positions 0 bs"
    and bs: "length (filter Not bs) = length axes"
    by blast
  let ?inv = "[AxesSqueeze ins, AxesTranspose (argsort p)]"
  have 1: "from_canonical m = Inr ?inv"
    using co by (simp add: from_canonical_def from_order_def)
  have 2: "\<forall>(xs :: 'a list) d. length xs = length axes \<longrightarrow>
           (\<exists>ys. transform_list xs d plan = Inr ys \<and> transform_list ys d ?inv = Inr xs)"
    unfolding plan ins using transform_list_roundtrip[OF p bs] by blast
  have 3: "\<forall>a :: 'b ndarray. wf_ndarray a \<and> length (shape a) = length axes \<longrightarrow>
           (\<exists>b. transform_array a plan = Inr b \<and> transform_array b ?inv = Inr a)"
    unfolding plan ins using transform_array_roundtrip[OF p bs] by blast
  from 1 2 3 show "\<exists>inverse_plan. from_canonical m = Inr inverse_plan
              \<and> (\<forall>(xs :: 'a list) d. length xs = length axes \<longrightarrow>
                   (\<exists>ys. transform_list xs d plan = Inr ys
                       \<and> transform_list ys d inverse_plan = Inr xs))
              \<and> (\<forall>a :: 'b ndarray. wf_ndarray a \<and> length (shape a) = length axes \<longrightarrow>
                   (\<exists>b. transform_array a plan = Inr b
                       \<and> transform_array b inverse_plan = Inr a))"
    by blast
next
  assume "others (setup_of so) = []
          \<and> distinct [setup_t (setup_of so), setup_c (setup_of so), setup_z (setup_of so),
                       setup_y (setup_of so), setup_x (setup_of so)]"
  then show "\<exists>plan. to_canonical m = Inr plan"
    using to_canonical_succeeds[OF assms] by blast
qed

theorem canonical_roundtrip_witness:
  "to_canonical example_mapper = Inr example_plan
   \<and> (\<exists>inverse_plan. from_canonical example_mapper = Inr inverse_plan
     \<and> (\<exists>ys. transform_list [''Y'', ''X'', ''C''] ''-'' example_plan = Inr ys
            \<and> transform_list ys ''-'' inverse_plan = Inr [''Y'', ''X'', ''C''])
     \<and> (\<exists>b. transform_array example_array example_plan = Inr b
            \<and> transform_array b inverse_plan = Inr example_array))"
proof -
  note t = canonical_roundtrip[where 'a = string and 'b = "nat list", OF example_mapper_init]
  have five: "others (setup_of None) = []
          \<and> distinct [setup_t (setup_of None), setup_c (setup_of None), setup_z (setup_of None),
                       setup_y (setup_of None), setup_x (setup_of None)]"
    by (simp add: setup_of_def AxesSetup_default_def)
  from t[THEN conjunct2, rule_format, OF five]
  obtain plan where plan: "to_canonical example_mapper = Inr plan" ..
  then have pe: "plan = example_plan" by (simp add: example_mapper_to_canonical)
  from t[THEN conjunct1, rule_format, OF plan[unfolded pe]]
  obtain inverse_plan where b: "from_canonical example_mapper = Inr inverse_plan"
    and l: "\<forall>(xs :: string list) d. length xs = length example_axes \<longrightarrow>
           (\<exists>ys. transform_list xs d example_plan = Inr ys
               \<and> transform_list ys d inverse_plan = Inr xs)"
    and a: "\<forall>a :: nat list ndarray. wf_ndarray a \<and> length (shape a) = length example_axes \<longrightarrow>
           (\<exists>b. transform_array a example_plan = Inr b
               \<and> transform_array b inverse_plan = Inr a)"
    by (elim exE conjE)
  have "length [''Y'', ''X'', ''C''] = length example_axes" by (simp add: example_axes_def)
  from l[rule_format, OF this, of "''-''"]
  have 1: "\<exists>ys. transform_list [''Y'', ''X'', ''C''] ''-'' example_plan = Inr ys
            \<and> transform_list ys ''-'' inverse_plan = Inr [''Y'', ''X'', ''C'']" .
  have "length (shape example_array) = length example_axes"
    by (simp add: example_array_def example_axes_def)
  from a[rule_format, OF conjI[OF example_array_wf this]]
  have 2: "\<exists>b. transform_array example_array example_plan = Inr b
            \<and> transform_array b inverse_plan = Inr example_array" .
  from b 1 2 have "\<exists>inverse_plan. from_canonical example_mapper = Inr inverse_plan
     \<and> (\<exists>ys. transform_list [''Y'', ''X'', ''C''] ''-'' example_plan = Inr ys
            \<and> transform_list ys ''-'' inverse_plan = Inr [''Y'', ''X'', ''C''])
     \<and> (\<exists>b. transform_array example_array example_plan = Inr b
            \<and> transform_array b inverse_plan = Inr example_array)"
    by (intro exI[of _ inverse_plan] conjI)
  with plan[unfolded pe] show ?thesis by (rule conjI)
qed

text \<open>
  The claim as stated, for every setup that validates, fails where \<^verbatim>\<open>to_canonical()\<close> raises:
  when the setup gives one on-disk name to two canonical keys (a duplicate axis name), and
  when \<^verbatim>\<open>others\<close> holds a name that is not on disk (an invalid axis name).
\<close>

theorem canonical_roundtrip_counterexample:
  "AxesMapper_init two_slot_axes (Some two_slot_setup) False False = Inr two_slot_mapper
   \<and> to_canonical two_slot_mapper = Inl (NgioValueError DuplicateAxisName)
   \<and> AxesMapper_init others_axes (Some others_setup) True False = Inr others_mapper
   \<and> to_canonical others_mapper = Inl (NgioValueError InvalidAxisName)"
  by code_simp

section \<open>The claims about the group handler and the plate\<close>

text \<open>
  Claim C8. Constructing a group handler with the cache and \<^verbatim>\<open>parallel_safe\<close> both enabled always
  fails with a \<^verbatim>\<open>NgioValueError\<close>, which for a supported mode is the one saying that the two
  options are mutually exclusive. That error needs both options (unless opening the store itself
  raised it): with one of them alone, a supported mode and a store that is a path, the
  construction succeeds.
\<close>

theorem cache_and_parallel_safe_exclusive:
  "(cache \<and> parallel_safe_arg \<longrightarrow>
      (\<exists>msg. ZarrGroupHandler_init opened cache mode_arg parallel_safe_arg
                = Inl (NgioValueError msg)))
   \<and> (cache \<and> parallel_safe_arg \<and> mode_arg \<in> set [''r'', ''r+'', ''w'', ''w-'', ''a''] \<longrightarrow>
        ZarrGroupHandler_init opened cache mode_arg parallel_safe_arg
          = Inl (NgioValueError CacheParallelExclusive))
   \<and> (ZarrGroupHandler_init opened cache mode_arg parallel_safe_arg
          = Inl (NgioValueError CacheParallelExclusive)
        \<and> opened \<noteq> Inl (NgioValueError CacheParallelExclusive)
        \<longrightarrow> cache \<and> parallel_safe_arg)
   \<and> (\<not> (cache \<and> parallel_safe_arg) \<and> mode_arg \<in> set [''r'', ''r+'', ''w'', ''w-'', ''a'']
        \<and> opened = Inr (g, PathStore p) \<longrightarrow>
        (\<exists>handler. ZarrGroupHandler_init opened cache mode_arg parallel_safe_arg = Inr handler
            \<and> use_cache handler = cache \<and> parallel_safe handler = parallel_safe_arg))"
proof -
  have 1: "cache \<and> parallel_safe_arg \<longrightarrow>
      (\<exists>msg. ZarrGroupHandler_init opened cache mode_arg parallel_safe_arg
                = Inl (NgioValueError msg))"
    by (simp add: ZarrGroupHandler_init_def)
  have 2: "cache \<and> parallel_safe_arg \<and> mode_arg \<in> set [''r'', ''r+'', ''w'', ''w-'', ''a''] \<longrightarrow>
        ZarrGroupHandler_init opened cache mode_arg parallel_safe_arg
          = Inl (NgioValueError CacheParallelExclusive)"
    by (simp add: ZarrGroupHandler_init_def)
  have 3: "ZarrGroupHandler_init opened cache mode_arg parallel_safe_arg
          = Inl (NgioValueError CacheParallelExclusive)
        \<and> opened \<noteq> Inl (NgioValueError CacheParallelExclusive)
        \<longrightarrow> cache \<and> parallel_safe_arg"
    by (auto simp: ZarrGroupHandler_init_def split: if_splits sum.splits store_ref.splits)
  have 4: "\<not> (cache \<and> parallel_safe_arg) \<and> mode_arg \<in> set [''r'', ''r+'', ''w'', ''w-'', ''a'']
        \<and> opened = Inr (g, PathStore p) \<longrightarrow>
        (\<exists>handler. ZarrGroupHandler_init opened cache mode_arg parallel_safe_arg = Inr handler
            \<and> use_cache handler = cache \<and> parallel_safe handler = parallel_safe_arg)"
    by (auto simp: ZarrGroupHandler_init_def)
  from 1 2 3 4 show ?thesis by blast
qed

theorem cache_and_parallel_safe_exclusive_witness:
  "ZarrGroupHandler_init example_opened True ''r+'' True
     = Inl (NgioValueError CacheParallelExclusive)
   \<and> (\<exists>handler. ZarrGroupHandler_init example_opened True ''r+'' False = Inr handler
          \<and> use_cache handler \<and> \<not> parallel_safe handler)
   \<and> (\<exists>handler. ZarrGroupHandler_init example_opened False ''r+'' True = Inr handler
          \<and> \<not> use_cache handler \<and> parallel_safe handler)"
proof -
  have m: "''r+'' \<in> set [''r'', ''r+'', ''w'', ''w-'', ''a'']" by simp
  have o: "example_opened = Inr (example_group, PathStore ''/data/plate.zarr'')"
    by (simp add: example_opened_def)
  note t = cache_and_parallel_safe_exclusive
  from t[where cache = True and parallel_safe_arg = True and mode_arg = "''r+''"
           and opened = example_opened] m
  have 1: "ZarrGroupHandler_init example_opened True ''r+'' True
     = Inl (NgioValueError CacheParallelExclusive)"
    by blast
  from t[where cache = True and parallel_safe_arg = False and mode_arg = "''r+''"
           and opened = example_opened and g = example_group
           and p = "''/data/plate.zarr''"] m o
  have 2: "\<exists>handler. ZarrGroupHandler_init example_opened True ''r+'' False = Inr handler
          \<and> use_cache handler \<and> \<not> parallel_safe handler"
    by simp
  from t[where cache = False and parallel_safe_arg = True and mode_arg = "''r+''"
           and opened = example_opened and g = example_group
           and p = "''/data/plate.zarr''"] m o
  have 3: "\<exists>handler. ZarrGroupHandler_init example_opened False ''r+'' True = Inr handler
          \<and> \<not> use_cache handler \<and> parallel_safe handler"
    by simp
  from 1 2 3 show ?thesis by blast
qed

text \<open>
  Claim C4. For a plate whose document has the well at \<open>row\<close> and \<open>column\<close> and whose well
  group holds a well document, \<^verbatim>\<open>get_image_path(row, column, path)\<close> with a path that is not
  among the image paths of the well raises: the \<^verbatim>\<open>ValueError\<close> saying that the image does not
  exist in the well, which is the not-found error of this operation. The hierarchy is unchanged.
\<close>

theorem get_image_path_not_found:
  assumes "handler_ok gh"
    and "OmeZarrPlate_init gh h = Inr self"
    and "h (group_path (group gh)) = Some (PlateAttrs pm)"
    and "find (is_well row column) (wells pm) = Some w"
    and "h (child_path (group gh) (well_path w)) = Some (WellAttrs wm)"
    and "path \<notin> set (paths wm None)"
  shows "get_image_path self row column path h = (Inl (ValueError ImageDoesNotExist), h)"
proof -
  let ?gh' = "derived gh (well_path w)"
  have g: "get_well self row column h
     = (Inr \<lparr>well_group_handler = ?gh', well_meta_handler = ?gh'\<rparr>, h)"
    by (rule get_well_existing[OF assms(1,2,3,4,5)])
  have p: "well_paths \<lparr>well_group_handler = ?gh', well_meta_handler = ?gh'\<rparr> None h
             = Inr (paths wm None)"
    using assms(5) by (simp add: well_paths_def well_meta_def load_attrs_def derived_def)
  show ?thesis
    using assms(6) by (simp add: get_image_path_def g p)
qed

theorem get_image_path_not_found_witness:
  "get_image_path unlocked_plate ''A'' ''1'' ''x'' one_image_hierarchy
     = (Inl (ValueError ImageDoesNotExist), one_image_hierarchy)"
proof -
  have 1: "one_image_hierarchy (group_path (group unlocked_handler))
             = Some (PlateAttrs \<lparr>wells = [well_A1]\<rparr>)"
    by (simp add: one_image_hierarchy_def unlocked_handler_def example_group_def)
  have 2: "find (is_well ''A'' ''1'') (wells \<lparr>wells = [well_A1]\<rparr>) = Some well_A1"
    by (simp add: is_well_def well_A1_def)
  have 3: "one_image_hierarchy (child_path (group unlocked_handler) (well_path well_A1))
             = Some (WellAttrs one_image_well)"
    by (simp add: one_image_hierarchy_def unlocked_handler_def example_group_def child_path_def
          well_path_def well_A1_def)
  have 4: "''x'' \<notin> set (paths one_image_well None)"
    by (simp add: paths_def one_image_well_def)
  show ?thesis
    by (rule get_image_path_not_found[OF unlocked_handler_ok unlocked_plate_init 1 2 3 4])
qed

text \<open>
  Claim C3. On a plate that can be written, whose document has the well and whose well group
  holds a well document, \<^verbatim>\<open>remove_image\<close> of an image that the well does not have raises the
  not-found error and changes nothing. Removing an image the well has writes the well document
  without it; when images remain, the plate document stays as it is; when none remains, the entry
  of the well is removed from the plate document and written, so that the plate has no well at
  this row and column any more.

  With the atomic flag the removal of the last image does not reach the plate document. The
  handler of the well is derived from the group of the plate, so its lock file is the lock file
  of the plate when the plate was opened by the path of its store; \<^verbatim>\<open>_remove_well\<close> asks for the
  lock of the plate inside the \<^verbatim>\<open>with\<close> block that holds the lock of the well, through another
  \<^verbatim>\<open>FileLock\<close> object. The request times out: the well document has been written without the
  image, and the plate document still lists the well.
\<close>

theorem remove_image_cascade:
  assumes ok: "handler_ok gh"
    and writable: "\<not> read_only (group gh) \<and> mode gh \<noteq> ''r''"
    and init: "OmeZarrPlate_init gh h = Inr self"
    and pm: "h (group_path (group gh)) = Some (PlateAttrs pm)"
    and w: "find (is_well row column) (wells pm) = Some w"
    and wm: "h (child_path (group gh) (well_path w)) = Some (WellAttrs wm)"
  shows "(path \<notin> set (paths wm None) \<longrightarrow>
           plate_remove_image enter self row column path h
             = (Inl (NgioValueError ImageNotFound), h))
     \<and> (path \<in> set (paths wm None) \<and> paths (wm\<lparr>images := filter (\<lambda>i. image_path i \<noteq> path) (images wm)\<rparr>) None \<noteq> [] \<longrightarrow>
           plate_remove_image enter self row column path h
             = (Inr (),
                h(child_path (group gh) (well_path w) \<mapsto>
                    WellAttrs (wm\<lparr>images := filter (\<lambda>i. image_path i \<noteq> path) (images wm)\<rparr>))))
     \<and> (path \<in> set (paths wm None) \<and> paths (wm\<lparr>images := filter (\<lambda>i. image_path i \<noteq> path) (images wm)\<rparr>) None = [] \<longrightarrow>
           plate_remove_image enter self row column path h
             = (Inr (),
                h(child_path (group gh) (well_path w) \<mapsto>
                    WellAttrs (wm\<lparr>images := filter (\<lambda>i. image_path i \<noteq> path) (images wm)\<rparr>),
                  group_path (group gh) \<mapsto>
                    PlateAttrs (pm\<lparr>wells := filter (\<lambda>w. \<not> is_well row column w) (wells pm)\<rparr>)))
           \<and> \<not> (\<exists>w'\<in>set (filter (\<lambda>w. \<not> is_well row column w) (wells pm)). is_well row column w')
           \<and> (parallel_safe gh \<and> group_store (group gh) = DirectoryStore p
                \<and> lock_path gh = Some (p @ ''.lock'') \<longrightarrow>
                atomic_remove_image FileLock_enter self row column path h
                  = (Inl Timeout,
                     h(child_path (group gh) (well_path w) \<mapsto>
                         WellAttrs (wm\<lparr>images := filter (\<lambda>i. image_path i \<noteq> path) (images wm)\<rparr>)))
                \<and> (h(child_path (group gh) (well_path w) \<mapsto>
                         WellAttrs (wm\<lparr>images := filter (\<lambda>i. image_path i \<noteq> path) (images wm)\<rparr>)))
                     (group_path (group gh)) = Some (PlateAttrs pm)
                \<and> (\<exists>w'\<in>set (wells pm). is_well row column w')))"
proof -
  let ?wp = "child_path (group gh) (well_path w)"
  let ?wm' = "wm\<lparr>images := filter (\<lambda>i. image_path i \<noteq> path) (images wm)\<rparr>"
  note plain = remove_image_impl_plain[where enter = enter and path = path,
      OF ok writable init pm w wm, folded plate_remove_image_def]
  have ne: "?wp \<noteq> group_path (group gh)"
    by (rule child_path_neq[OF well_path_nonempty])
  have 4: "\<not> (\<exists>w'\<in>set (filter (\<lambda>w. \<not> is_well row column w) (wells pm)). is_well row column w')"
    by simp
  have 5: "atomic_remove_image FileLock_enter self row column path h
             = (Inl Timeout, h(?wp \<mapsto> WellAttrs ?wm'))"
    if "path \<in> set (paths wm None)" "paths ?wm' None = []"
      "parallel_safe gh" "group_store (group gh) = DirectoryStore p"
      "lock_path gh = Some (p @ ''.lock'')"
    unfolding atomic_remove_image_def
    by (rule remove_image_impl_atomic_timeout[OF ok writable that(3,4,5) init pm w wm that(1,2)])
  have 6: "(h(?wp \<mapsto> WellAttrs ?wm')) (group_path (group gh)) = Some (PlateAttrs pm)"
    using ne pm by simp
  have 7: "\<exists>w'\<in>set (wells pm). is_well row column w'"
    using find_is_well[OF w] by blast
  from plain 4 5 6 7 show ?thesis by blast
qed

theorem remove_image_cascade_witness:
  "plate_remove_image FileLock_enter locked_plate ''A'' ''1'' ''x'' one_image_hierarchy
     = (Inl (NgioValueError ImageNotFound), one_image_hierarchy)
   \<and> plate_remove_image FileLock_enter locked_plate ''A'' ''1'' ''0'' one_image_hierarchy
     = (Inr (), one_image_hierarchy(''A/1'' \<mapsto> WellAttrs \<lparr>images = []\<rparr>,
                                     [] \<mapsto> PlateAttrs \<lparr>wells = []\<rparr>))
   \<and> atomic_remove_image FileLock_enter locked_plate ''A'' ''1'' ''0'' one_image_hierarchy
     = (Inl Timeout, one_image_hierarchy(''A/1'' \<mapsto> WellAttrs \<lparr>images = []\<rparr>))
   \<and> (one_image_hierarchy(''A/1'' \<mapsto> WellAttrs \<lparr>images = []\<rparr>)) []
     = Some (PlateAttrs \<lparr>wells = [well_A1]\<rparr>)"
proof -
  have gh: "locked_handler = unlocked_handler \<or> locked_handler = locked_handler" by simp
  note e = example_well_lookup[OF gh]
  have 1: "one_image_hierarchy (group_path (group locked_handler))
             = Some (PlateAttrs \<lparr>wells = [well_A1]\<rparr>)"
    unfolding e by (simp add: one_image_hierarchy_def)
  have 3: "one_image_hierarchy (child_path (group locked_handler) (well_path well_A1))
             = Some (WellAttrs one_image_well)"
    unfolding e by (simp add: one_image_hierarchy_def)
  note t = remove_image_cascade[where enter = FileLock_enter and p = "''/data/plate.zarr''",
      OF locked_handler_ok e(4) locked_plate_init 1 e(3) 3]
  have l: "parallel_safe locked_handler
     \<and> group_store (group locked_handler) = DirectoryStore ''/data/plate.zarr''
     \<and> lock_path locked_handler = Some (''/data/plate.zarr'' @ ''.lock'')"
    by (simp add: locked_handler_def example_group_def)
  have x: "''x'' \<notin> set (paths one_image_well None)"
    by (simp add: paths_def one_image_well_def)
  have z: "''0'' \<in> set (paths one_image_well None)
     \<and> paths (one_image_well\<lparr>images := filter (\<lambda>i. image_path i \<noteq> ''0'') (images one_image_well)\<rparr>)
          None = []"
    by (simp add: paths_def one_image_well_def)
  have f: "one_image_well\<lparr>images := filter (\<lambda>i. image_path i \<noteq> ''0'') (images one_image_well)\<rparr>
             = \<lparr>images = []\<rparr>"
    "\<lparr>wells = [well_A1]\<rparr>\<lparr>wells := filter (\<lambda>w. \<not> is_well ''A'' ''1'' w) (wells \<lparr>wells = [well_A1]\<rparr>)\<rparr>
             = \<lparr>wells = []\<rparr>"
    by (simp_all add: one_image_well_def is_well_def well_A1_def)
  from t[of "''x''"] x
  have r1: "plate_remove_image FileLock_enter locked_plate ''A'' ''1'' ''x'' one_image_hierarchy
     = (Inl (NgioValueError ImageNotFound), one_image_hierarchy)"
    by blast
  from t[of "''0''"] z l
  have r2: "plate_remove_image FileLock_enter locked_plate ''A'' ''1'' ''0'' one_image_hierarchy
     = (Inr (), one_image_hierarchy(''A/1'' \<mapsto> WellAttrs \<lparr>images = []\<rparr>,
                                     [] \<mapsto> PlateAttrs \<lparr>wells = []\<rparr>))"
    and r3: "atomic_remove_image FileLock_enter locked_plate ''A'' ''1'' ''0'' one_image_hierarchy
     = (Inl Timeout, one_image_hierarchy(''A/1'' \<mapsto> WellAttrs \<lparr>images = []\<rparr>))"
    and r4: "(one_image_hierarchy(''A/1'' \<mapsto> WellAttrs \<lparr>images = []\<rparr>)) []
     = Some (PlateAttrs \<lparr>wells = [well_A1]\<rparr>)"
    unfolding e(1,2) f by blast+
  from r1 r2 r3 r4 show ?thesis by blast
qed






section \<open>The claim about the handlers manager\<close>

text \<open>
  Claim C2, as amended. \<^verbatim>\<open>get_handler\<close> tries the registered versions in the reverse of the order
  in which the registry holds them and returns the handler of the first version whose metadata
  loads, the versions before it having been rejected with a validation error. When every
  registered version is rejected, it fails with the one error that holds, for every registered
  version in the order of the attempts, the validation error of that version. Registering a
  version that is new to the registry succeeds and makes it the first to be tried. Registering a
  known version again fails without \<^verbatim>\<open>overwrite\<close>; with \<^verbatim>\<open>overwrite\<close> it replaces the class and
  keeps the place of the version, so that the order of the attempts is the reverse of the order
  of the first registrations.
\<close>

theorem get_handler_newest_first:
  "(\<forall>pre v c post h m.
       rev reg = pre @ (v, c) # post
       \<and> (\<forall>(v', c')\<in>set pre. rejection slm st cache md c' \<noteq> None)
       \<and> c st cache md = Inr h \<and> slm h = Meta m
       \<longrightarrow> get_handler slm reg st cache md = Inr h)
   \<and> ((\<forall>(v, c)\<in>set reg. rejection slm st cache md c \<noteq> None) \<and> distinct (map fst reg)
       \<longrightarrow> get_handler slm reg st cache md
             = Inl (NoKnownVersion
                     (map (\<lambda>(v, c). (v, the (rejection slm st cache md c))) (rev reg))))
   \<and> (key \<notin> set (map fst reg)
       \<longrightarrow> add_handler reg key handler overwrite = Inr (reg @ [(key, handler)])
           \<and> available_handlers (reg @ [(key, handler)]) = key # available_handlers reg)
   \<and> (key \<in> set (map fst reg) \<and> overwrite
       \<longrightarrow> (\<exists>reg'. add_handler reg key handler overwrite = Inr reg'
                \<and> available_handlers reg' = available_handlers reg
                \<and> map_of reg' key = Some handler
                \<and> (\<forall>k. k \<noteq> key \<longrightarrow> map_of reg' k = map_of reg k)))
   \<and> (key \<in> set (map fst reg) \<and> \<not> overwrite
       \<longrightarrow> add_handler reg key handler overwrite = Inl (NgioValueError HandlerExists))
   \<and> (\<forall>reg'. add_handler reg key handler overwrite = Inr reg' \<and> distinct (map fst reg)
       \<longrightarrow> distinct (map fst reg'))"
proof -
  have 1: "\<forall>pre v c post h m.
       rev reg = pre @ (v, c) # post
       \<and> (\<forall>(v', c')\<in>set pre. rejection slm st cache md c' \<noteq> None)
       \<and> c st cache md = Inr h \<and> slm h = Meta m
       \<longrightarrow> get_handler slm reg st cache md = Inr h"
    unfolding get_handler_def using get_handler_loop_first[of _ slm st cache md] by auto
  have 2: "(\<forall>(v, c)\<in>set reg. rejection slm st cache md c \<noteq> None) \<and> distinct (map fst reg)
       \<longrightarrow> get_handler slm reg st cache md
             = Inl (NoKnownVersion
                     (map (\<lambda>(v, c). (v, the (rejection slm st cache md c))) (rev reg)))"
  proof
    assume a: "(\<forall>(v, c)\<in>set reg. rejection slm st cache md c \<noteq> None) \<and> distinct (map fst reg)"
    then have "\<forall>(v, c)\<in>set (rev reg). rejection slm st cache md c \<noteq> None"
      and "distinct (map fst (rev reg))"
      by (auto simp: rev_map[symmetric])
    from get_handler_loop_all_rejected[OF this, of "[]"]
    show "get_handler slm reg st cache md
             = Inl (NoKnownVersion
                     (map (\<lambda>(v, c). (v, the (rejection slm st cache md c))) (rev reg)))"
      by (simp add: get_handler_def)
  qed
  have 3: "key \<notin> set (map fst reg)
       \<longrightarrow> add_handler reg key handler overwrite = Inr (reg @ [(key, handler)])
           \<and> available_handlers (reg @ [(key, handler)]) = key # available_handlers reg"
    by (simp add: add_handler_def available_handlers_def update_fresh)
  have 4: "key \<in> set (map fst reg) \<and> overwrite
       \<longrightarrow> (\<exists>reg'. add_handler reg key handler overwrite = Inr reg'
                \<and> available_handlers reg' = available_handlers reg
                \<and> map_of reg' key = Some handler
                \<and> (\<forall>k. k \<noteq> key \<longrightarrow> map_of reg' k = map_of reg k))"
    by (auto simp: add_handler_def available_handlers_def update_keys update_conv')
  have 5: "key \<in> set (map fst reg) \<and> \<not> overwrite
       \<longrightarrow> add_handler reg key handler overwrite = Inl (NgioValueError HandlerExists)"
    by (simp add: add_handler_def)
  have 6: "\<forall>reg'. add_handler reg key handler overwrite = Inr reg' \<and> distinct (map fst reg)
       \<longrightarrow> distinct (map fst reg')"
    by (auto simp: add_handler_def distinct_update split: if_splits)
  from 1 2 3 4 5 6 show ?thesis by blast
qed

theorem get_handler_newest_first_witness:
  "add_handler [] ''0.4'' (example_class ''0.4'') False = Inr [(''0.4'', example_class ''0.4'')]
   \<and> add_handler [(''0.4'', example_class ''0.4'')] ''0.5'' (example_class ''0.5'') False
       = Inr example_registry
   \<and> available_handlers example_registry = [''0.5'', ''0.4'']
   \<and> get_handler example_load example_registry ''0.4'' False ''a'' = Inr (''0.4'', ''0.4'')
   \<and> get_handler example_load example_registry ''0.3'' False ''a''
       = Inl (NoKnownVersion [(''0.5'', ''not 0.5''), (''0.4'', ''not 0.4'')])
   \<and> add_handler example_registry ''0.4'' (accept_all ''0.4'') False
       = Inl (NgioValueError HandlerExists)"
proof -
  note t = get_handler_newest_first[where slm = example_load and cache = False and md = "''a''"]
  note t3 = t[THEN conjunct2, THEN conjunct2, THEN conjunct1, rule_format]
  note t5 = t[THEN conjunct2, THEN conjunct2, THEN conjunct2, THEN conjunct2, THEN conjunct1,
      rule_format]
  have a1: "add_handler [] ''0.4'' (example_class ''0.4'') False
              = Inr [(''0.4'', example_class ''0.4'')]"
    using t3[where reg = "[]" and key = "''0.4''" and handler = "example_class ''0.4''"
        and overwrite = False]
    by simp
  have a2: "add_handler [(''0.4'', example_class ''0.4'')] ''0.5'' (example_class ''0.5'') False
              = Inr example_registry
            \<and> available_handlers example_registry
              = ''0.5'' # available_handlers [(''0.4'', example_class ''0.4'')]"
    using t3[where reg = "[(''0.4'', example_class ''0.4'')]" and key = "''0.5''"
        and handler = "example_class ''0.5''" and overwrite = False]
    by (simp add: example_registry_def)
  have a3: "available_handlers example_registry = [''0.5'', ''0.4'']"
    using a2 by (simp add: available_handlers_def)
  have r5: "\<forall>(v', c')\<in>set [(''0.5'', example_class ''0.5'')].
              rejection example_load ''0.4'' False ''a'' c' \<noteq> None"
    by (simp add: rejection_def example_class_def example_load_def)
  have c4: "example_class ''0.4'' ''0.4'' False ''a'' = Inr (''0.4'', ''0.4'')"
    "example_load (''0.4'', ''0.4'') = Meta ''0.4''"
    by (simp_all add: example_class_def example_load_def)
  from t[where reg = example_registry and st = "''0.4''", THEN conjunct1, rule_format,
         OF conjI[OF example_rev conjI[OF r5 conjI[OF c4]]]]
  have 1: "get_handler example_load example_registry ''0.4'' False ''a'' = Inr (''0.4'', ''0.4'')" .
  have rej: "(\<forall>(v, c)\<in>set example_registry. rejection example_load ''0.3'' False ''a'' c \<noteq> None)
       \<and> distinct (map fst example_registry)"
    by (simp add: example_registry_def rejection_def example_class_def example_load_def)
  from t[where reg = example_registry and st = "''0.3''", THEN conjunct2, THEN conjunct1,
         rule_format, OF rej]
  have 2: "get_handler example_load example_registry ''0.3'' False ''a''
       = Inl (NoKnownVersion [(''0.5'', ''not 0.5''), (''0.4'', ''not 0.4'')])"
    by (simp add: example_registry_def rejection_def example_class_def example_load_def)
  have 5: "add_handler example_registry ''0.4'' (accept_all ''0.4'') False
       = Inl (NgioValueError HandlerExists)"
    using t5[where reg = example_registry and key = "''0.4''" and handler = "accept_all ''0.4''"
        and overwrite = False]
    by (simp add: example_registry_def)
  from a1 a2 a3 1 2 5 show ?thesis by blast
qed

text \<open>
  The claim as stated, most recently registered first, fails after a version has been
  registered again: \<^verbatim>\<open>0.4\<close> is registered last, as a class that loads every document, and a
  document of the kind \<^verbatim>\<open>0.5\<close> is still given to the handler of \<^verbatim>\<open>0.5\<close>, which is tried first.
\<close>

theorem get_handler_newest_first_counterexample:
  "add_handler example_registry ''0.4'' (accept_all ''0.4'') True = Inr reregistered_registry
   \<and> available_handlers reregistered_registry = [''0.5'', ''0.4'']
   \<and> get_handler example_load reregistered_registry ''0.5'' False ''a'' = Inr (''0.5'', ''0.5'')
   \<and> accept_all ''0.4'' ''0.5'' False ''a'' = Inr (''0.4'', ''0.4'')
   \<and> example_load (''0.4'', ''0.4'') = Meta ''0.4''"
  by (simp add: add_handler_def example_registry_def reregistered_registry_def
        available_handlers_def get_handler_def accept_all_def example_class_def
        example_load_def)

end
